theory Spec2Isabelle
  imports Main "HOL-Library.Word" "HOL-Library.Char_ord" "HOL-Library.Signed_Division"
begin

unbundle bit_operations_syntax

section \<open>Bytes and C strings\<close>

text \<open>
  A C \<open>char\<close> is a \<^typ>\<open>char\<close> (one byte), compared through its unsigned value. Every
  comparison of the source is against an ASCII constant, so the signedness of the C type
  \<open>char\<close> does not change any of them. A \<open>const char*\<close> into a NUL-terminated text is
  the list of the bytes from the pointer on; the terminating NUL is the end of the list,
  so reading at or past the end gives NUL.
\<close>

abbreviation NUL :: char where
  "NUL \<equiv> CHR 0x00"

definition c_at :: "string \<Rightarrow> nat \<Rightarrow> char" where
  "c_at ptr i = (if i < length ptr then ptr ! i else NUL)"

text \<open>The bytes a C reader sees from a pointer: those before the first NUL.\<close>

definition c_str :: "string \<Rightarrow> string" where
  "c_str ptr = takeWhile (\<lambda>c. c \<noteq> NUL) ptr"

section \<open>Character classes\<close>

definition Whitespace :: "char \<Rightarrow> bool" where
  "Whitespace c \<longleftrightarrow> c = CHR '' '' \<or> c = CHR 0x0A \<or> c = CHR 0x09 \<or> c = CHR 0x0D \<or>
     c = CHR 0x0B \<or> c = CHR 0x0C"

definition WhitespaceNoNewline :: "char \<Rightarrow> bool" where
  "WhitespaceNoNewline c \<longleftrightarrow> c = CHR '' '' \<or> c = CHR 0x09 \<or> c = CHR 0x0D \<or>
     c = CHR 0x0B \<or> c = CHR 0x0C"

definition Unprintable :: "char \<Rightarrow> bool" where
  "Unprintable c \<longleftrightarrow> c < CHR '' '' \<and> c > NUL"

definition Digit :: "char \<Rightarrow> bool" where
  "Digit c \<longleftrightarrow> CHR ''0'' \<le> c \<and> c \<le> CHR ''9''"

definition OctalDigit :: "char \<Rightarrow> bool" where
  "OctalDigit c \<longleftrightarrow> CHR ''0'' \<le> c \<and> c \<le> CHR ''7''"

definition HexDigit :: "char \<Rightarrow> bool" where
  "HexDigit c \<longleftrightarrow> (CHR ''0'' \<le> c \<and> c \<le> CHR ''9'') \<or> (CHR ''a'' \<le> c \<and> c \<le> CHR ''f'') \<or>
     (CHR ''A'' \<le> c \<and> c \<le> CHR ''F'')"

definition Letter :: "char \<Rightarrow> bool" where
  "Letter c \<longleftrightarrow> (CHR ''a'' \<le> c \<and> c \<le> CHR ''z'') \<or> (CHR ''A'' \<le> c \<and> c \<le> CHR ''Z'') \<or>
     c = CHR ''_''"

definition Alphanumeric :: "char \<Rightarrow> bool" where
  "Alphanumeric c \<longleftrightarrow> (CHR ''a'' \<le> c \<and> c \<le> CHR ''z'') \<or> (CHR ''A'' \<le> c \<and> c \<le> CHR ''Z'') \<or>
     (CHR ''0'' \<le> c \<and> c \<le> CHR ''9'') \<or> c = CHR ''_''"

definition Escape :: "char \<Rightarrow> bool" where
  "Escape c \<longleftrightarrow> c = CHR ''a'' \<or> c = CHR ''b'' \<or> c = CHR ''f'' \<or> c = CHR ''n'' \<or>
     c = CHR ''r'' \<or> c = CHR ''t'' \<or> c = CHR ''v'' \<or> c = CHR 0x5C \<or>
     c = CHR ''?'' \<or> c = CHR 0x27 \<or> c = CHR 0x22"

section \<open>The digit table\<close>

definition kTabWidth :: int where
  "kTabWidth = 8"

definition kAsciiToInt :: "int list" where
  "kAsciiToInt =
    [36, 36, 36, 36, 36, 36, 36, 36, 36, 36, 36, 36, 36, 36, 36, 36,
     36, 36, 36, 36, 36, 36, 36, 36, 36, 36, 36, 36, 36, 36, 36, 36,
     36, 36, 36, 36, 36, 36, 36, 36, 36, 36, 36, 36, 36, 36, 36, 36,
     0,  1,  2,  3,  4,  5,  6,  7,  8,  9,
     36, 36, 36, 36, 36, 36, 36,
     10, 11, 12, 13, 14, 15, 16, 17, 18, 19, 20, 21, 22, 23, 24, 25,
     26, 27, 28, 29, 30, 31, 32, 33, 34, 35,
     36, 36, 36, 36, 36, 36,
     10, 11, 12, 13, 14, 15, 16, 17, 18, 19, 20, 21, 22, 23, 24, 25,
     26, 27, 28, 29, 30, 31, 32, 33, 34, 35,
     36, 36, 36, 36, 36,
     36, 36, 36, 36, 36, 36, 36, 36, 36, 36, 36, 36, 36, 36, 36, 36,
     36, 36, 36, 36, 36, 36, 36, 36, 36, 36, 36, 36, 36, 36, 36, 36,
     36, 36, 36, 36, 36, 36, 36, 36, 36, 36, 36, 36, 36, 36, 36, 36,
     36, 36, 36, 36, 36, 36, 36, 36, 36, 36, 36, 36, 36, 36, 36, 36,
     36, 36, 36, 36, 36, 36, 36, 36, 36, 36, 36, 36, 36, 36, 36, 36,
     36, 36, 36, 36, 36, 36, 36, 36, 36, 36, 36, 36, 36, 36, 36, 36,
     36, 36, 36, 36, 36, 36, 36, 36, 36, 36, 36, 36, 36, 36, 36, 36,
     36, 36, 36, 36, 36, 36, 36, 36, 36, 36, 36, 36, 36, 36, 36, 36]"

text \<open>\<open>digit & 0xFF\<close> is the unsigned value of the byte, the index into the table.\<close>

definition DigitValue :: "char \<Rightarrow> int" where
  "DigitValue digit = kAsciiToInt ! of_char digit"

section \<open>\<open>upb_Parse_Integer\<close>\<close>

definition UINT64_MAX :: "64 word" where
  "UINT64_MAX = 0xFFFFFFFFFFFFFFFF"

text \<open>
  The first loop: skip the leading zeros and seed \<open>result\<close> with the first non-zero
  digit. It returns \<open>None\<close> where the source returns false, and otherwise \<open>result\<close>
  and the pointer the second loop starts from.
\<close>

fun Parse_Integer_seed :: "int \<Rightarrow> string \<Rightarrow> (64 word \<times> string) option" where
  "Parse_Integer_seed base [] = Some (0, [])"
| "Parse_Integer_seed base (c # ptr) =
     (if c = NUL then Some (0, c # ptr)
      else let digit = DigitValue c in
        if digit \<ge> base then None
        else if digit \<noteq> 0 then Some (word_of_int digit, ptr)
        else Parse_Integer_seed base ptr)"

text \<open>The second loop: multiply and add, with the two overflow checks.\<close>

fun Parse_Integer_accum :: "int \<Rightarrow> 64 word \<Rightarrow> 64 word \<Rightarrow> string \<Rightarrow> 64 word option" where
  "Parse_Integer_accum base overflow_if_mul_base result [] = Some result"
| "Parse_Integer_accum base overflow_if_mul_base result (c # ptr) =
     (if c = NUL then Some result
      else let digit = DigitValue c in
        if digit < 0 \<or> digit \<ge> base then None
        else if result \<ge> overflow_if_mul_base then None
        else let result' = result * word_of_int base + word_of_int digit in
          if result' < word_of_int base then None
          else Parse_Integer_accum base overflow_if_mul_base result' ptr)"

text \<open>The base, the overflow bound and the start of the digits, as the prefix selects them.\<close>

definition Parse_Integer_prefix :: "string \<Rightarrow> int \<times> 64 word \<times> string" where
  "Parse_Integer_prefix text =
     (if c_at text 0 = CHR ''0'' then
        (if c_at text 1 = CHR ''x'' \<or> c_at text 1 = CHR ''X''
         then (16, UINT64_MAX div 16 + 1, drop 2 text)
         else (8, UINT64_MAX div 8 + 1, text))
      else (10, UINT64_MAX div 10 + 1, text))"

definition upb_Parse_Integer :: "string \<Rightarrow> 64 word \<Rightarrow> 64 word option" where
  "upb_Parse_Integer text max_value =
     (case Parse_Integer_prefix text of (base, overflow_if_mul_base, ptr) \<Rightarrow>
        (case Parse_Integer_seed base ptr of
           None \<Rightarrow> None
         | Some (result, ptr') \<Rightarrow>
             (case Parse_Integer_accum base overflow_if_mul_base result ptr' of
                None \<Rightarrow> None
              | Some result' \<Rightarrow> if result' > max_value then None else Some result')))"

section \<open>\<open>upb_Parse_StringAppend\<close>\<close>

definition TranslateEscape :: "char \<Rightarrow> char" where
  "TranslateEscape c =
     (if c = CHR ''a'' then CHR 0x07
      else if c = CHR ''b'' then CHR 0x08
      else if c = CHR ''f'' then CHR 0x0C
      else if c = CHR ''n'' then CHR 0x0A
      else if c = CHR ''r'' then CHR 0x0D
      else if c = CHR ''t'' then CHR 0x09
      else if c = CHR ''v'' then CHR 0x0B
      else if c = CHR 0x5C then CHR 0x5C
      else if c = CHR ''?'' then CHR ''?''
      else if c = CHR 0x27 then CHR 0x27
      else if c = CHR 0x22 then CHR 0x22
      else CHR ''?'')"

definition ghtonl :: "32 word \<Rightarrow> 32 word" where
  "ghtonl host_int =
     (push_bit 24 (host_int AND 0xFF) OR push_bit 8 (host_int AND 0xFF00) OR
      drop_bit 8 (host_int AND 0xFF0000) OR drop_bit 24 (host_int AND 0xFF000000))"

text \<open>
  The bytes of a \<open>uint32_t\<close> as they lie in memory, lowest address first, on a
  little-endian host: the host \<open>ghtonl\<close>, which swaps unconditionally, is written for.
\<close>

definition uint32_bytes :: "32 word \<Rightarrow> string" where
  "uint32_bytes x =
     [char_of (unat (x AND 0xFF)), char_of (unat (drop_bit 8 x AND 0xFF)),
      char_of (unat (drop_bit 16 x AND 0xFF)), char_of (unat (drop_bit 24 x AND 0xFF))]"

text \<open>\<open>snprintf(temp, sizeof temp, "\\U%08x", code_point)\<close>: ten bytes, lower-case digits.\<close>

definition hex_digit_char :: "32 word \<Rightarrow> char" where
  "hex_digit_char d = (if d < 10 then char_of (48 + unat d) else char_of (87 + unat d))"

definition format_U08x :: "32 word \<Rightarrow> string" where
  "format_U08x code_point =
     CHR 0x5C # CHR ''U'' #
     map (\<lambda>i. hex_digit_char (drop_bit (4 * i) code_point AND 0xF)) [7, 6, 5, 4, 3, 2, 1, 0]"

definition AppendUTF8 :: "32 word \<Rightarrow> string \<Rightarrow> string" where
  "AppendUTF8 code_point output =
     (if code_point \<le> 0x7f then
        output @ drop (4 - 1) (uint32_bytes (ghtonl code_point))
      else if code_point \<le> 0x07ff then
        output @ drop (4 - 2) (uint32_bytes (ghtonl
          (0x0000c080 OR push_bit 2 (code_point AND 0x07c0) OR (code_point AND 0x003f))))
      else if code_point \<le> 0xffff then
        output @ drop (4 - 3) (uint32_bytes (ghtonl
          (0x00e08080 OR push_bit 4 (code_point AND 0xf000) OR
           push_bit 2 (code_point AND 0x0fc0) OR (code_point AND 0x003f))))
      else if code_point \<le> 0x10ffff then
        output @ drop (4 - 4) (uint32_bytes (ghtonl
          (0xf0808080 OR push_bit 6 (code_point AND 0x1c0000) OR
           push_bit 4 (code_point AND 0x03f000) OR push_bit 2 (code_point AND 0x000fc0) OR
           (code_point AND 0x003f))))
      else output @ format_U08x code_point)"

text \<open>
  \<open>ReadHexDigits\<close>: the loop over \<open>len\<close> bytes, then the function. The result is the
  returned flag and the value left in \<open>*result\<close>.
\<close>

fun ReadHexDigits_loop :: "string \<Rightarrow> nat \<Rightarrow> 32 word \<Rightarrow> bool \<times> 32 word" where
  "ReadHexDigits_loop ptr 0 result = (True, result)"
| "ReadHexDigits_loop ptr (Suc n) result =
     (if c_at ptr 0 = NUL then (False, result)
      else ReadHexDigits_loop (drop 1 ptr) n
             (push_bit 4 result + word_of_int (DigitValue (c_at ptr 0))))"

definition ReadHexDigits :: "string \<Rightarrow> nat \<Rightarrow> bool \<times> 32 word" where
  "ReadHexDigits ptr len = (if len = 0 then (False, 0) else ReadHexDigits_loop ptr len 0)"

definition kMinHeadSurrogate :: "32 word" where "kMinHeadSurrogate = 0xd800"
definition kMaxHeadSurrogate :: "32 word" where "kMaxHeadSurrogate = 0xdc00"
definition kMinTrailSurrogate :: "32 word" where "kMinTrailSurrogate = 0xdc00"
definition kMaxTrailSurrogate :: "32 word" where "kMaxTrailSurrogate = 0xe000"

definition IsHeadSurrogate :: "32 word \<Rightarrow> bool" where
  "IsHeadSurrogate code_point \<longleftrightarrow>
     code_point \<ge> kMinHeadSurrogate \<and> code_point < kMaxHeadSurrogate"

definition IsTrailSurrogate :: "32 word \<Rightarrow> bool" where
  "IsTrailSurrogate code_point \<longleftrightarrow>
     code_point \<ge> kMinTrailSurrogate \<and> code_point < kMaxTrailSurrogate"

definition AssembleUTF16 :: "32 word \<Rightarrow> 32 word \<Rightarrow> 32 word" where
  "AssembleUTF16 head_surrogate trail_surrogate =
     0x10000 + (push_bit 10 (head_surrogate - kMinHeadSurrogate) OR
                (trail_surrogate - kMinTrailSurrogate))"

definition UnicodeLength :: "char \<Rightarrow> nat" where
  "UnicodeLength key = (if key = CHR ''u'' then 4 else if key = CHR ''U'' then 8 else 0)"

text \<open>
  \<open>FetchUnicodePoint\<close> returns the pointer it stops at, and the value it leaves in
  \<open>*code_point\<close>. On failure the pointer is \<open>ptr\<close> itself.
\<close>

definition FetchUnicodePoint :: "string \<Rightarrow> string \<times> 32 word" where
  "FetchUnicodePoint ptr =
     (let len = UnicodeLength (c_at ptr 0); p = drop 1 ptr in
      case ReadHexDigits p len of (ok, code_point) \<Rightarrow>
        if \<not> ok then (ptr, code_point)
        else
          let p = drop len p in
          if IsHeadSurrogate code_point \<and> c_at p 0 = CHR 0x5C \<and> c_at p 1 = CHR ''u'' then
            (case ReadHexDigits (drop 2 p) 4 of (ok2, trail_surrogate) \<Rightarrow>
               if ok2 \<and> IsTrailSurrogate trail_surrogate
               then (drop 6 p, AssembleUTF16 code_point trail_surrogate)
               else (p, code_point))
          else (p, code_point))"

text \<open>An octal escape: one digit at \<open>ptr\<close>, then up to two more. Gives \<open>ptr\<close> and \<open>code\<close>.\<close>

definition octal_escape :: "string \<Rightarrow> string \<times> int" where
  "octal_escape ptr =
     (let code = DigitValue (c_at ptr 0);
          (ptr, code) = (if OctalDigit (c_at ptr 1)
                         then (drop 1 ptr, code * 8 + DigitValue (c_at ptr 1))
                         else (ptr, code));
          (ptr, code) = (if OctalDigit (c_at ptr 1)
                         then (drop 1 ptr, code * 8 + DigitValue (c_at ptr 1))
                         else (ptr, code))
      in (ptr, code))"

text \<open>A hex escape: \<open>ptr\<close> at the \<open>x\<close>, then up to two digits.\<close>

definition hex_escape :: "string \<Rightarrow> string \<times> int" where
  "hex_escape ptr =
     (let code = 0;
          (ptr, code) = (if HexDigit (c_at ptr 1)
                         then (drop 1 ptr, DigitValue (c_at ptr 1))
                         else (ptr, code));
          (ptr, code) = (if HexDigit (c_at ptr 1)
                         then (drop 1 ptr, code * 16 + DigitValue (c_at ptr 1))
                         else (ptr, code))
      in (ptr, code))"

lemma FetchUnicodePoint_drop: "\<exists>k. fst (FetchUnicodePoint ptr) = drop k ptr"
proof -
  have a: "\<And>n. \<exists>k. drop n (drop 1 ptr) = drop k ptr" by auto
  have b: "\<And>n. \<exists>k. drop 6 (drop n (drop 1 ptr)) = drop k ptr" by auto
  have c: "\<exists>k. ptr = drop k ptr" by (rule exI [of _ 0]) simp
  show ?thesis
    unfolding FetchUnicodePoint_def Let_def
    using a b c by (auto split: prod.splits)
qed

lemma FetchUnicodePoint_shorter:
  "fst (FetchUnicodePoint ptr) \<noteq> ptr \<Longrightarrow> length (fst (FetchUnicodePoint ptr)) < length ptr"
proof -
  assume ne: "fst (FetchUnicodePoint ptr) \<noteq> ptr"
  obtain k where k: "fst (FetchUnicodePoint ptr) = drop k ptr"
    using FetchUnicodePoint_drop by blast
  with ne have "drop k ptr \<noteq> ptr" by simp
  then have "0 < k \<and> ptr \<noteq> []" by (cases k) auto
  then show ?thesis using k by simp
qed

lemma octal_escape_shorter: "length (fst (octal_escape ptr)) \<le> length ptr"
  by (simp add: octal_escape_def Let_def)

lemma hex_escape_shorter: "length (fst (hex_escape ptr)) \<le> length ptr"
  by (simp add: hex_escape_def Let_def)

lemma c_at_0_not_NUL: "c_at ptr 0 \<noteq> NUL \<Longrightarrow> ptr \<noteq> []"
  by (auto simp: c_at_def)

text \<open>The loop of \<open>upb_Parse_StringAppend\<close>, from \<open>ptr\<close> on; \<open>quote\<close> is \<open>text[0]\<close>.\<close>

function StringAppend_loop :: "char \<Rightarrow> string \<Rightarrow> string \<Rightarrow> string" where
  "StringAppend_loop quote ptr output =
     (if c_at ptr 0 = NUL then output
      else if c_at ptr 0 = CHR 0x5C \<and> c_at ptr 1 \<noteq> NUL then
        (if OctalDigit (c_at (drop 1 ptr) 0) then
           StringAppend_loop quote (drop 1 (fst (octal_escape (drop 1 ptr))))
             (output @ [char_of (snd (octal_escape (drop 1 ptr)))])
         else if c_at (drop 1 ptr) 0 = CHR ''x'' then
           StringAppend_loop quote (drop 1 (fst (hex_escape (drop 1 ptr))))
             (output @ [char_of (snd (hex_escape (drop 1 ptr)))])
         else if c_at (drop 1 ptr) 0 = CHR ''u'' \<or> c_at (drop 1 ptr) 0 = CHR ''U'' then
           (if fst (FetchUnicodePoint (drop 1 ptr)) = drop 1 ptr then
              StringAppend_loop quote (drop 1 (drop 1 ptr)) (output @ [c_at (drop 1 ptr) 0])
            else
              StringAppend_loop quote (fst (FetchUnicodePoint (drop 1 ptr)))
                (AppendUTF8 (snd (FetchUnicodePoint (drop 1 ptr))) output))
         else
           StringAppend_loop quote (drop 1 (drop 1 ptr))
             (output @ [TranslateEscape (c_at (drop 1 ptr) 0)]))
      else if c_at ptr 0 = quote \<and> c_at ptr 1 = NUL then
        StringAppend_loop quote (drop 1 ptr) output
      else StringAppend_loop quote (drop 1 ptr) (output @ [c_at ptr 0]))"
  by pat_completeness auto
termination
proof (relation "measure (\<lambda>(quote, ptr, output). length ptr)", goal_cases)
  case 1
  show ?case by simp
next
  case (2 quote ptr out)
  then have "ptr \<noteq> []" by (auto simp: c_at_def)
  then show ?case using octal_escape_shorter [of "drop 1 ptr"] by (cases ptr) auto
next
  case (3 quote ptr out)
  then have "ptr \<noteq> []" by (auto simp: c_at_def)
  then show ?case using hex_escape_shorter [of "drop 1 ptr"] by (cases ptr) auto
next
  case (4 quote ptr out)
  then have "ptr \<noteq> []" by (auto simp: c_at_def)
  then show ?case by (cases ptr) auto
next
  case (5 quote ptr out)
  then have "ptr \<noteq> []" by (auto simp: c_at_def)
  moreover have "length (fst (FetchUnicodePoint (drop 1 ptr))) < length (drop 1 ptr)"
    using 5 by (intro FetchUnicodePoint_shorter) simp
  ultimately show ?case by (cases ptr) auto
next
  case (6 quote ptr out)
  then have "ptr \<noteq> []" by (auto simp: c_at_def)
  then show ?case by (cases ptr) auto
next
  case (7 quote ptr out)
  then have "ptr \<noteq> []" by (auto simp: c_at_def)
  then show ?case by (cases ptr) auto
next
  case (8 quote ptr out)
  then have "ptr \<noteq> []" by (auto simp: c_at_def)
  then show ?case by (cases ptr) auto
qed

declare StringAppend_loop.simps [simp del]

text \<open>
  \<open>upb_Parse_StringAppend\<close> returns the new contents of \<open>output\<close>. For the empty text
  the source prints a message and reaches \<open>UPB_ASSERT(0)\<close>: that is \<open>None\<close>.
  \<open>upb_String_Reserve\<close> changes the capacity only.
\<close>

definition upb_Parse_StringAppend :: "string \<Rightarrow> string \<Rightarrow> string option" where
  "upb_Parse_StringAppend text output =
     (let size = length (c_str text) in
      if size = 0 then None
      else Some (StringAppend_loop (c_at text 0) (drop 1 text) output))"

section \<open>C integers\<close>

text \<open>
  A C \<open>int\<close> has 32 bits and a \<open>size_t\<close> has 64. The model keeps an \<open>int\<close> as an
  integer and a \<open>size_t\<close> as a natural number, and writes the conversions out:
  \<open>c_int\<close> is the \<open>int\<close> that an exact result becomes, the low 32 bits in two's
  complement, for an \<open>int\<close> operation whose result leaves the range and for a
  \<open>size_t\<close> narrowed to \<open>int\<close>; \<open>size_t_of_int\<close> is the \<open>size_t\<close> an \<open>int\<close>
  converts to, and so the value of a \<open>size_t\<close> operation with that exact result.
\<close>

definition INT_MAX :: int where
  "INT_MAX = 2147483647"

definition c_int :: "int \<Rightarrow> int" where
  "c_int x = (x + 2147483648) mod 4294967296 - 2147483648"

definition size_t_of_int :: "int \<Rightarrow> nat" where
  "size_t_of_int x = nat (x mod 18446744073709551616)"

section \<open>The tokenizer state\<close>

datatype upb_TokenType =
    UPB_TOKENTYPE_START
  | UPB_TOKENTYPE_END
  | UPB_TOKENTYPE_IDENTIFIER
  | UPB_TOKENTYPE_INTEGER
  | UPB_TOKENTYPE_FLOAT
  | UPB_TOKENTYPE_STRING
  | UPB_TOKENTYPE_SYMBOL
  | UPB_TOKENTYPE_WHITESPACE
  | UPB_TOKENTYPE_NEWLINE

datatype upb_CommentStyle = UPB_COMMENT_STYLE_CPP | UPB_COMMENT_STYLE_SH

datatype NextCommentStatus = LINE_COMMENT | BLOCK_COMMENT | SLASH_NOT_COMMENT | NO_COMMENT

text \<open>
  \<open>upb_Token\<close>. The fields are those of the source, with the prefix \<open>tok_\<close>: the
  tokenizer has a \<open>line\<close> and a \<open>column\<close> of its own. The \<open>upb_String\<close> text is the
  list of its bytes. \<open>line\<close>, \<open>column\<close> and \<open>end_column\<close> are C \<open>int\<close>s.
\<close>

record upb_Token =
  tok_type :: upb_TokenType
  tok_line :: int
  tok_column :: int
  tok_end_column :: int
  tok_text :: string

text \<open>
  The only string the scanner ever records into is \<open>current.text\<close>: the two comment
  consumers are static and are called with \<open>content = NULL\<close> only.
\<close>

datatype record_target_t = Current_text

text \<open>
  \<open>upb_Tokenizer\<close>. \<open>buffer\<close> holds the bytes of the current chunk, so \<open>buffer_size\<close>
  is its length. \<open>input\<close> is the stream: the chunks it has yet to hand out.
  \<open>error_collector\<close> is the list of the errors \<open>AddError\<close> has been called with. The
  arena is not modelled.
\<close>

record upb_Tokenizer =
  current :: upb_Token
  previous :: upb_Token
  input :: "string list"
  error_collector :: "(int \<times> int \<times> string) list"
  current_char :: char
  buffer :: string
  buffer_pos :: nat
  read_error :: bool
  line :: int
  column :: int
  record_target :: "record_target_t option"
  record_start :: int
  allow_f_after_float :: bool
  comment_style :: upb_CommentStyle
  require_space_after_number :: bool
  allow_multiline_strings :: bool
  report_whitespace :: bool
  report_newlines :: bool

abbreviation buffer_size :: "upb_Tokenizer \<Rightarrow> nat" where
  "buffer_size t \<equiv> length (buffer t)"

text \<open>
  The scanner passes a character class as a function pointer. The model passes the name
  of the class, one of the nine the file defines.
\<close>

datatype CharacterClass =
    Class_Whitespace
  | Class_WhitespaceNoNewline
  | Class_Unprintable
  | Class_Digit
  | Class_OctalDigit
  | Class_HexDigit
  | Class_Letter
  | Class_Alphanumeric
  | Class_Escape

fun in_class :: "CharacterClass \<Rightarrow> char \<Rightarrow> bool" where
  "in_class Class_Whitespace c = Whitespace c"
| "in_class Class_WhitespaceNoNewline c = WhitespaceNoNewline c"
| "in_class Class_Unprintable c = Unprintable c"
| "in_class Class_Digit c = Digit c"
| "in_class Class_OctalDigit c = OctalDigit c"
| "in_class Class_HexDigit c = HexDigit c"
| "in_class Class_Letter c = Letter c"
| "in_class Class_Alphanumeric c = Alphanumeric c"
| "in_class Class_Escape c = Escape c"

subsection \<open>Options\<close>

definition upb_Tokenizer_SetAllowFAfterFloat :: "upb_Tokenizer \<Rightarrow> bool \<Rightarrow> upb_Tokenizer" where
  "upb_Tokenizer_SetAllowFAfterFloat t allow = t\<lparr>allow_f_after_float := allow\<rparr>"

definition upb_Tokenizer_SetCommentStyle ::
  "upb_Tokenizer \<Rightarrow> upb_CommentStyle \<Rightarrow> upb_Tokenizer" where
  "upb_Tokenizer_SetCommentStyle t style = t\<lparr>comment_style := style\<rparr>"

definition upb_Tokenizer_SetRequireSpaceAfterNumber ::
  "upb_Tokenizer \<Rightarrow> bool \<Rightarrow> upb_Tokenizer" where
  "upb_Tokenizer_SetRequireSpaceAfterNumber t require = t\<lparr>require_space_after_number := require\<rparr>"

definition upb_Tokenizer_SetAllowMultilineStrings ::
  "upb_Tokenizer \<Rightarrow> bool \<Rightarrow> upb_Tokenizer" where
  "upb_Tokenizer_SetAllowMultilineStrings t allow = t\<lparr>allow_multiline_strings := allow\<rparr>"

definition upb_Tokenizer_ReportWhitespace :: "upb_Tokenizer \<Rightarrow> bool" where
  "upb_Tokenizer_ReportWhitespace t = report_whitespace t"

definition upb_Tokenizer_SetReportWhitespace :: "upb_Tokenizer \<Rightarrow> bool \<Rightarrow> upb_Tokenizer" where
  "upb_Tokenizer_SetReportWhitespace t report =
     (let t = t\<lparr>report_whitespace := report\<rparr>
      in t\<lparr>report_newlines := (report_newlines t \<and> report)\<rparr>)"

definition upb_Tokenizer_Reportnewlines :: "upb_Tokenizer \<Rightarrow> bool" where
  "upb_Tokenizer_Reportnewlines t = report_newlines t"

definition upb_Tokenizer_SetReportNewlines :: "upb_Tokenizer \<Rightarrow> bool \<Rightarrow> upb_Tokenizer" where
  "upb_Tokenizer_SetReportNewlines t report =
     (let t = t\<lparr>report_newlines := report\<rparr>
      in t\<lparr>report_whitespace := (report_whitespace t \<or> report)\<rparr>)"

subsection \<open>The buffered reader\<close>

definition AddError :: "upb_Tokenizer \<Rightarrow> string \<Rightarrow> upb_Tokenizer" where
  "AddError t message = t\<lparr>error_collector := error_collector t @ [(line t, column t, message)]\<rparr>"

text \<open>
  Modelled from the spec: \<open>upb_ZeroCopyInputStream_Next\<close>, which is not among the
  sources. It hands out the next chunk of the stream and its size, and size 0 at the end
  of the stream or on an error. The result is the chunk and the stream that is left.
\<close>

definition upb_ZeroCopyInputStream_Next :: "string list \<Rightarrow> string \<times> string list" where
  "upb_ZeroCopyInputStream_Next stream =
     (case stream of [] \<Rightarrow> ([], []) | data # rest \<Rightarrow> (data, rest))"

text \<open>
  Modelled from the spec: \<open>upb_String_Append(s, data, size)\<close>, not among the sources,
  appends \<open>size\<close> bytes to the string. Here the string is \<open>current.text\<close>.
\<close>

definition upb_String_Append :: "upb_Tokenizer \<Rightarrow> string \<Rightarrow> upb_Tokenizer" where
  "upb_String_Append t bytes = t\<lparr>current := (current t)\<lparr>tok_text := tok_text (current t) @ bytes\<rparr>\<rparr>"

text \<open>
  The \<open>count\<close> bytes at \<open>buffer + start\<close>. Outside the chunk the source would read
  memory that is not the chunk's, which C leaves undefined: the model has no bytes
  there. This can only happen once a chunk has \<open>2^31\<close> bytes or more.
\<close>

definition buffer_bytes :: "string \<Rightarrow> int \<Rightarrow> nat \<Rightarrow> string" where
  "buffer_bytes buf start count =
     (if 0 \<le> start \<and> nat start + count \<le> length buf then take count (drop (nat start) buf)
      else [])"

text \<open>
  \<open>Refresh\<close>. In \<open>record_start < buffer_size\<close> and in
  \<open>buffer_size - record_start\<close> the \<open>int\<close> is converted to \<open>size_t\<close>.
\<close>

definition Refresh :: "upb_Tokenizer \<Rightarrow> upb_Tokenizer" where
  "Refresh t =
     (if read_error t then t\<lparr>current_char := NUL\<rparr>
      else
        let t = (if record_target t \<noteq> None \<and> size_t_of_int (record_start t) < buffer_size t
                 then (upb_String_Append t
                         (buffer_bytes (buffer t) (record_start t)
                            (size_t_of_int (int (buffer_size t) - record_start t))))
                        \<lparr>record_start := 0\<rparr>
                 else t);
            t = t\<lparr>buffer := [], buffer_pos := 0\<rparr>;
            (data, rest) = upb_ZeroCopyInputStream_Next (input t);
            t = t\<lparr>input := rest\<rparr>
        in if length data > 0
           then t\<lparr>buffer := data, current_char := data ! 0\<rparr>
           else t\<lparr>read_error := True, current_char := NUL\<rparr>)"

text \<open>
  \<open>NextChar\<close>. The C \<open>%\<close> on \<open>int\<close> truncates towards zero: that is \<open>smod\<close>. The
  three counter updates are \<open>int\<close> additions.
\<close>

definition NextChar :: "upb_Tokenizer \<Rightarrow> upb_Tokenizer" where
  "NextChar t =
     (let t = (if current_char t = CHR 0x0A then t\<lparr>line := c_int (line t + 1), column := 0\<rparr>
               else if current_char t = CHR 0x09
               then t\<lparr>column := c_int (column t + (kTabWidth - column t smod kTabWidth))\<rparr>
               else t\<lparr>column := c_int (column t + 1)\<rparr>);
          t = t\<lparr>buffer_pos := buffer_pos t + 1\<rparr>
      in if buffer_pos t < buffer_size t
         then t\<lparr>current_char := buffer t ! buffer_pos t\<rparr>
         else Refresh t)"

definition RecordTo :: "upb_Tokenizer \<Rightarrow> record_target_t \<Rightarrow> upb_Tokenizer" where
  "RecordTo t target = t\<lparr>record_target := Some target, record_start := c_int (int (buffer_pos t))\<rparr>"

text \<open>
  \<open>StopRecording\<close> appends \<open>buffer_pos - record_start\<close> bytes, a \<open>size_t\<close>
  difference, from \<open>buffer + record_start\<close>. It is called by \<open>EndToken\<close> only, after
  a \<open>StartToken\<close>, so the target is \<open>current.text\<close>.
\<close>

definition StopRecording :: "upb_Tokenizer \<Rightarrow> upb_Tokenizer" where
  "StopRecording t =
     (upb_String_Append t
        (buffer_bytes (buffer t) (record_start t)
           (size_t_of_int (int (buffer_pos t) - record_start t))))
       \<lparr>record_target := None, record_start := - 1\<rparr>"

definition StartToken :: "upb_Tokenizer \<Rightarrow> upb_Tokenizer" where
  "StartToken t =
     RecordTo
       (t\<lparr>current := (current t)\<lparr>tok_type := UPB_TOKENTYPE_START, tok_text := [],
                                  tok_line := line t, tok_column := column t\<rparr>\<rparr>)
       Current_text"

definition EndToken :: "upb_Tokenizer \<Rightarrow> upb_Tokenizer" where
  "EndToken t =
     (let t = StopRecording t
      in t\<lparr>current := (current t)\<lparr>tok_end_column := column t\<rparr>\<rparr>)"

subsection \<open>Consuming by character class\<close>

definition LookingAt :: "upb_Tokenizer \<Rightarrow> CharacterClass \<Rightarrow> bool" where
  "LookingAt t f = in_class f (current_char t)"

definition TryConsumeOne :: "upb_Tokenizer \<Rightarrow> CharacterClass \<Rightarrow> bool \<times> upb_Tokenizer" where
  "TryConsumeOne t f = (if in_class f (current_char t) then (True, NextChar t) else (False, t))"

definition TryConsume :: "upb_Tokenizer \<Rightarrow> char \<Rightarrow> bool \<times> upb_Tokenizer" where
  "TryConsume t c = (if current_char t = c then (True, NextChar t) else (False, t))"

text \<open>
  The short-circuit operators of C on calls that change the tokenizer: the second call
  is made on the state the first one leaves, and only when the first does not decide.
\<close>

definition or_else ::
  "(upb_Tokenizer \<Rightarrow> bool \<times> upb_Tokenizer) \<Rightarrow> (upb_Tokenizer \<Rightarrow> bool \<times> upb_Tokenizer) \<Rightarrow>
   upb_Tokenizer \<Rightarrow> bool \<times> upb_Tokenizer" where
  "or_else a b t = (case a t of (r, t') \<Rightarrow> if r then (True, t') else b t')"

definition and_also ::
  "(upb_Tokenizer \<Rightarrow> bool \<times> upb_Tokenizer) \<Rightarrow> (upb_Tokenizer \<Rightarrow> bool \<times> upb_Tokenizer) \<Rightarrow>
   upb_Tokenizer \<Rightarrow> bool \<times> upb_Tokenizer" where
  "and_also a b t = (case a t of (r, t') \<Rightarrow> if r then b t' else (False, t'))"

text \<open>
  What is left to read, as a number that every \<open>NextChar\<close> on a byte other than the
  NUL of the end of input makes smaller: the loops of the scanner stop.
\<close>

definition remaining :: "upb_Tokenizer \<Rightarrow> nat" where
  "remaining t =
     2 * (buffer_size t - buffer_pos t) + (if current_char t = NUL then 0 else 1) +
     (if read_error t then 0 else 1 + sum_list (map (\<lambda>c. 2 * length c + 2) (input t)))"

lemma in_class_not_NUL: "in_class f c \<Longrightarrow> c \<noteq> NUL"
  by (cases f)
    (auto simp: Whitespace_def WhitespaceNoNewline_def Unprintable_def Digit_def OctalDigit_def
      HexDigit_def Letter_def Alphanumeric_def Escape_def)

lemma remaining_Refresh_latched:
  "read_error t \<Longrightarrow> remaining (Refresh t) = 2 * (buffer_size t - buffer_pos t)"
  by (simp add: Refresh_def remaining_def)

lemma remaining_Refresh_open:
  "\<not> read_error t \<Longrightarrow>
     remaining (Refresh t) < 1 + sum_list (map (\<lambda>c. 2 * length c + 2) (input t))"
  by (cases "input t")
    (auto simp: Refresh_def remaining_def upb_ZeroCopyInputStream_Next_def upb_String_Append_def
      Let_def)

lemma remaining_NextChar_less:
  assumes "current_char t \<noteq> NUL \<or> \<not> read_error t"
  shows "remaining (NextChar t) < remaining t"
proof -
  define t1 where "t1 = (if current_char t = CHR 0x0A then t\<lparr>line := c_int (line t + 1), column := 0\<rparr>
               else if current_char t = CHR 0x09
               then t\<lparr>column := c_int (column t + (kTabWidth - column t smod kTabWidth))\<rparr>
               else t\<lparr>column := c_int (column t + 1)\<rparr>)"
  define t2 where "t2 = t1\<lparr>buffer_pos := buffer_pos t1 + 1\<rparr>"
  have eq: "NextChar t = (if buffer_pos t2 < buffer_size t2
         then t2\<lparr>current_char := buffer t2 ! buffer_pos t2\<rparr> else Refresh t2)"
    by (simp add: NextChar_def t1_def t2_def Let_def)
  have f: "buffer t2 = buffer t" "buffer_pos t2 = buffer_pos t + 1" "read_error t2 = read_error t"
    "input t2 = input t" "current_char t2 = current_char t"
    by (simp_all add: t1_def t2_def)
  show ?thesis
  proof (cases "buffer_pos t2 < buffer_size t2")
    case True
    then show ?thesis using f by (auto simp: eq remaining_def)
  next
    case False
    show ?thesis
    proof (cases "read_error t")
      case True
      with assms have "current_char t \<noteq> NUL" by simp
      then show ?thesis
        using False True f remaining_Refresh_latched [of t2] by (simp add: eq remaining_def)
    next
      case nr: False
      then show ?thesis
        using False f remaining_Refresh_open [of t2] by (simp add: eq remaining_def)
    qed
  qed
qed

lemma remaining_NextChar_le: "remaining (NextChar t) \<le> remaining t"
proof (cases "current_char t \<noteq> NUL \<or> \<not> read_error t")
  case True
  then show ?thesis using remaining_NextChar_less [of t] by simp
next
  case False
  then have l: "read_error t" and c: "current_char t = NUL" by simp_all
  show ?thesis
    using l c by (auto simp: NextChar_def Let_def remaining_def Refresh_def)
qed

lemma remaining_AddError [simp]: "remaining (AddError t m) = remaining t"
  by (simp add: AddError_def remaining_def)

lemma remaining_TryConsumeOne: "remaining (snd (TryConsumeOne t f)) \<le> remaining t"
  by (simp add: TryConsumeOne_def remaining_NextChar_le)

lemma remaining_TryConsume: "remaining (snd (TryConsume t c)) \<le> remaining t"
  by (simp add: TryConsume_def remaining_NextChar_le)

lemma remaining_TryConsume_less:
  "fst (TryConsume t c) \<Longrightarrow> c \<noteq> NUL \<Longrightarrow> remaining (snd (TryConsume t c)) < remaining t"
  by (auto simp: TryConsume_def remaining_NextChar_less split: if_splits)

lemma remaining_or_else:
  assumes "\<And>s. remaining (snd (a s)) \<le> remaining s" "\<And>s. remaining (snd (b s)) \<le> remaining s"
  shows "remaining (snd (or_else a b t)) \<le> remaining t"
proof (cases "a t")
  case (Pair r t')
  have 1: "remaining t' \<le> remaining t" using assms(1) [of t] Pair by simp
  have 2: "remaining (snd (b t')) \<le> remaining t'" using assms(2) [of t'] .
  show ?thesis using 1 2 Pair by (simp add: or_else_def)
qed

lemma remaining_and_also:
  assumes "\<And>s. remaining (snd (a s)) \<le> remaining s" "\<And>s. remaining (snd (b s)) \<le> remaining s"
  shows "remaining (snd (and_also a b t)) \<le> remaining t"
proof (cases "a t")
  case (Pair r t')
  have 1: "remaining t' \<le> remaining t" using assms(1) [of t] Pair by simp
  have 2: "remaining (snd (b t')) \<le> remaining t'" using assms(2) [of t'] .
  show ?thesis using 1 2 Pair by (simp add: and_also_def)
qed

function ConsumeZeroOrMore :: "upb_Tokenizer \<Rightarrow> CharacterClass \<Rightarrow> upb_Tokenizer" where
  "ConsumeZeroOrMore t f =
     (if in_class f (current_char t) then ConsumeZeroOrMore (NextChar t) f else t)"
  by pat_completeness auto
termination
  by (relation "measure (\<lambda>(t, f). remaining t)")
    (auto intro: remaining_NextChar_less dest: in_class_not_NUL)

declare ConsumeZeroOrMore.simps [simp del]

lemma remaining_ConsumeZeroOrMore: "remaining (ConsumeZeroOrMore t f) \<le> remaining t"
proof (induction t f rule: ConsumeZeroOrMore.induct)
  case (1 t f)
  show ?case
  proof (cases "in_class f (current_char t)")
    case True
    then show ?thesis
      using "1.IH" remaining_NextChar_le [of t]
      by (subst ConsumeZeroOrMore.simps) simp
  next
    case False
    then show ?thesis by (subst ConsumeZeroOrMore.simps) simp
  qed
qed

text \<open>\<open>do NextChar(t); while (f(t->current_char));\<close> is a \<open>NextChar\<close>, then the loop above.\<close>

definition ConsumeOneOrMore :: "upb_Tokenizer \<Rightarrow> CharacterClass \<Rightarrow> string \<Rightarrow> upb_Tokenizer" where
  "ConsumeOneOrMore t f err_msg =
     (if \<not> in_class f (current_char t) then AddError t err_msg
      else ConsumeZeroOrMore (NextChar t) f)"

lemma remaining_ConsumeOneOrMore: "remaining (ConsumeOneOrMore t f m) \<le> remaining t"
  using remaining_ConsumeZeroOrMore [of "NextChar t" f] remaining_NextChar_le [of t]
  by (simp add: ConsumeOneOrMore_def)

subsection \<open>Strings\<close>

lemma remaining_TryConsumeOne_eq:
  "TryConsumeOne t f = (r, t') \<Longrightarrow> remaining t' \<le> remaining t"
  using remaining_TryConsumeOne [of t f] by simp

lemma remaining_TryConsume_eq:
  "TryConsume t c = (r, t') \<Longrightarrow> remaining t' \<le> remaining t"
  using remaining_TryConsume [of t c] by simp

text \<open>The four hex digits after \<open>\u\<close>, and the eight digits up to \<open>10ffff\<close> after \<open>\U\<close>.\<close>

definition ConsumeString_u4 :: "upb_Tokenizer \<Rightarrow> bool \<times> upb_Tokenizer" where
  "ConsumeString_u4 =
     and_also (\<lambda>t. TryConsumeOne t Class_HexDigit)
    (and_also (\<lambda>t. TryConsumeOne t Class_HexDigit)
    (and_also (\<lambda>t. TryConsumeOne t Class_HexDigit)
              (\<lambda>t. TryConsumeOne t Class_HexDigit)))"

definition ConsumeString_U8 :: "upb_Tokenizer \<Rightarrow> bool \<times> upb_Tokenizer" where
  "ConsumeString_U8 =
     and_also (\<lambda>t. TryConsume t CHR ''0'')
    (and_also (\<lambda>t. TryConsume t CHR ''0'')
    (and_also (or_else (\<lambda>t. TryConsume t CHR ''0'') (\<lambda>t. TryConsume t CHR ''1''))
    (and_also (\<lambda>t. TryConsumeOne t Class_HexDigit)
    (and_also (\<lambda>t. TryConsumeOne t Class_HexDigit)
    (and_also (\<lambda>t. TryConsumeOne t Class_HexDigit)
    (and_also (\<lambda>t. TryConsumeOne t Class_HexDigit)
              (\<lambda>t. TryConsumeOne t Class_HexDigit)))))))"

lemma remaining_ConsumeString_u4: "remaining (snd (ConsumeString_u4 t)) \<le> remaining t"
  unfolding ConsumeString_u4_def
  by (intro remaining_and_also remaining_TryConsumeOne)

lemma remaining_ConsumeString_U8: "remaining (snd (ConsumeString_U8 t)) \<le> remaining t"
  unfolding ConsumeString_U8_def
  by (intro remaining_and_also remaining_or_else remaining_TryConsumeOne remaining_TryConsume)

text \<open>The case of the backslash in \<open>ConsumeString\<close>, after the backslash is consumed.\<close>

definition ConsumeString_escape :: "upb_Tokenizer \<Rightarrow> upb_Tokenizer" where
  "ConsumeString_escape t =
     (let (r, t) = TryConsumeOne t Class_Escape in
      if r then t else
      let (r, t) = TryConsumeOne t Class_OctalDigit in
      if r then t else
      let (r, t) = TryConsume t CHR ''x'' in
      if r then
        (let (r, t) = TryConsumeOne t Class_HexDigit in
         if \<not> r then AddError t ''Expected hex digits for escape sequence.'' else t)
      else
      let (r, t) = TryConsume t CHR ''u'' in
      if r then
        (let (r, t) = ConsumeString_u4 t in
         if \<not> r
         then AddError t (''Expected four hex digits for '' @ [CHR 0x5C] @ ''u escape sequence.'')
         else t)
      else
      let (r, t) = TryConsume t CHR ''U'' in
      if r then
        (let (r, t) = ConsumeString_U8 t in
         if \<not> r
         then AddError t (''Expected eight hex digits up to 10ffff for '' @ [CHR 0x5C] @
                          ''U escape sequence'')
         else t)
      else AddError t ''Invalid escape sequence in string literal.'')"

lemma remaining_ConsumeString_escape: "remaining (ConsumeString_escape t) \<le> remaining t"
proof -
  have u4: "\<And>s r s'. ConsumeString_u4 s = (r, s') \<Longrightarrow> remaining s' \<le> remaining s"
    using remaining_ConsumeString_u4 by (metis snd_conv)
  have U8: "\<And>s r s'. ConsumeString_U8 s = (r, s') \<Longrightarrow> remaining s' \<le> remaining s"
    using remaining_ConsumeString_U8 by (metis snd_conv)
  show ?thesis
    unfolding ConsumeString_escape_def Let_def
    by (auto split: prod.splits
        dest!: remaining_TryConsumeOne_eq remaining_TryConsume_eq u4 U8)
qed

function ConsumeString :: "upb_Tokenizer \<Rightarrow> char \<Rightarrow> upb_Tokenizer" where
  "ConsumeString t delimiter =
     (if current_char t = NUL then AddError t ''Unexpected end of string.''
      else if current_char t = CHR 0x0A then
        (if \<not> allow_multiline_strings t
         then AddError t ''String literals cannot cross line boundaries.''
         else ConsumeString (NextChar t) delimiter)
      else if current_char t = CHR 0x5C then
        ConsumeString (ConsumeString_escape (NextChar t)) delimiter
      else if current_char t = delimiter then NextChar t
      else ConsumeString (NextChar t) delimiter)"
  by pat_completeness auto
termination
proof (relation "measure (\<lambda>(t, delimiter). remaining t)", goal_cases)
  case 1
  show ?case by simp
next
  case (2 t delimiter)
  then show ?case using remaining_NextChar_less [of t] by simp
next
  case (3 t delimiter)
  then show ?case
    using remaining_NextChar_less [of t] remaining_ConsumeString_escape [of "NextChar t"]
    by simp
next
  case (4 t delimiter)
  then show ?case using remaining_NextChar_less [of t] by simp
qed

declare ConsumeString.simps [simp del]

lemma remaining_ConsumeString: "remaining (ConsumeString t d) \<le> remaining t"
proof (induction t d rule: ConsumeString.induct)
  case (1 t d)
  have n: "remaining (NextChar t) \<le> remaining t" by (rule remaining_NextChar_le)
  have e: "remaining (ConsumeString_escape (NextChar t)) \<le> remaining t"
    using remaining_ConsumeString_escape [of "NextChar t"] n by simp
  show ?case
    using "1.IH" n e by (subst ConsumeString.simps) auto
qed

subsection \<open>Numbers\<close>

text \<open>The decimal branch of \<open>ConsumeNumber\<close>: it gives \<open>is_float\<close>.\<close>

definition ConsumeNumber_decimal :: "upb_Tokenizer \<Rightarrow> bool \<Rightarrow> bool \<times> upb_Tokenizer" where
  "ConsumeNumber_decimal t started_with_dot =
     (let (is_float, t) =
            (if started_with_dot then (True, ConsumeZeroOrMore t Class_Digit)
             else
               let t = ConsumeZeroOrMore t Class_Digit;
                   (r, t) = TryConsume t CHR ''.''
               in if r then (True, ConsumeZeroOrMore t Class_Digit) else (False, t));
          (r, t) = or_else (\<lambda>t. TryConsume t CHR ''e'') (\<lambda>t. TryConsume t CHR ''E'') t;
          (is_float, t) =
            (if r then
               let (minus, t) = TryConsume t CHR ''-'';
                   t = (if \<not> minus then snd (TryConsume t CHR ''+'') else t)
               in (True, ConsumeOneOrMore t Class_Digit
                           ([CHR 0x22] @ ''e'' @ [CHR 0x22] @ '' must be followed by exponent.''))
             else (is_float, t));
          (r, t) = (if allow_f_after_float t
                    then or_else (\<lambda>t. TryConsume t CHR ''f'') (\<lambda>t. TryConsume t CHR ''F'') t
                    else (False, t))
      in (if r then True else is_float, t))"

definition ConsumeNumber ::
  "upb_Tokenizer \<Rightarrow> bool \<Rightarrow> bool \<Rightarrow> upb_TokenType \<times> upb_Tokenizer" where
  "ConsumeNumber t started_with_zero started_with_dot =
     (let (hex, t) =
            (if started_with_zero
             then or_else (\<lambda>t. TryConsume t CHR ''x'') (\<lambda>t. TryConsume t CHR ''X'') t
             else (False, t));
          (is_float, t) =
            (if hex then
               (False, ConsumeOneOrMore t Class_HexDigit
                         ([CHR 0x22] @ ''0x'' @ [CHR 0x22] @ '' must be followed by hex digits.''))
             else if started_with_zero \<and> LookingAt t Class_Digit then
               (let t = ConsumeZeroOrMore t Class_OctalDigit
                in if LookingAt t Class_Digit
                   then (False, ConsumeZeroOrMore
                           (AddError t ''Numbers starting with leading zero must be in octal.'')
                           Class_Digit)
                   else (False, t))
             else ConsumeNumber_decimal t started_with_dot);
          t = (if LookingAt t Class_Letter \<and> require_space_after_number t
               then AddError t ''Need space between number and identifier.''
               else if current_char t = CHR ''.'' then
                 (if is_float
                  then AddError t (''Already saw decimal point or exponent; can'' @ [CHR 0x27] @
                                   ''t have another one.'')
                  else AddError t ''Hex and octal numbers must be integers.'')
               else t)
      in (if is_float then UPB_TOKENTYPE_FLOAT else UPB_TOKENTYPE_INTEGER, t))"

subsection \<open>Comments\<close>

text \<open>
  Both comment consumers are called with \<open>content = NULL\<close>, so nothing is recorded.
\<close>

function ConsumeLineComment_loop :: "upb_Tokenizer \<Rightarrow> upb_Tokenizer" where
  "ConsumeLineComment_loop t =
     (if current_char t \<noteq> NUL \<and> current_char t \<noteq> CHR 0x0A
      then ConsumeLineComment_loop (NextChar t) else t)"
  by pat_completeness auto
termination
  by (relation "measure remaining") (auto intro: remaining_NextChar_less)

declare ConsumeLineComment_loop.simps [simp del]

definition ConsumeLineComment :: "upb_Tokenizer \<Rightarrow> upb_Tokenizer" where
  "ConsumeLineComment t = snd (TryConsume (ConsumeLineComment_loop t) (CHR 0x0A))"

lemma remaining_ConsumeLineComment_loop: "remaining (ConsumeLineComment_loop t) \<le> remaining t"
proof (induction t rule: ConsumeLineComment_loop.induct)
  case (1 t)
  show ?case
    using "1.IH" remaining_NextChar_le [of t]
    by (subst ConsumeLineComment_loop.simps) auto
qed

lemma remaining_ConsumeLineComment: "remaining (ConsumeLineComment t) \<le> remaining t"
  using remaining_ConsumeLineComment_loop [of t]
    remaining_TryConsume [of "ConsumeLineComment_loop t" "CHR 0x0A"]
  by (simp add: ConsumeLineComment_def)

text \<open>The inner loop of \<open>ConsumeBlockComment\<close>.\<close>

function ConsumeBlockComment_skip :: "upb_Tokenizer \<Rightarrow> upb_Tokenizer" where
  "ConsumeBlockComment_skip t =
     (if current_char t \<noteq> NUL \<and> current_char t \<noteq> CHR ''*'' \<and>
         current_char t \<noteq> CHR ''/'' \<and> current_char t \<noteq> CHR 0x0A
      then ConsumeBlockComment_skip (NextChar t) else t)"
  by pat_completeness auto
termination
  by (relation "measure remaining") (auto intro: remaining_NextChar_less)

declare ConsumeBlockComment_skip.simps [simp del]

text \<open>How a pass through the body of a loop ends.\<close>

datatype flow = Continue | Break | Return bool

text \<open>One pass through the body of the outer loop of \<open>ConsumeBlockComment\<close>.\<close>

definition ConsumeBlockComment_body ::
  "upb_Tokenizer \<Rightarrow> int \<Rightarrow> int \<Rightarrow> flow \<times> upb_Tokenizer" where
  "ConsumeBlockComment_body t start_line start_column =
     (let t = ConsumeBlockComment_skip t;
          (r, t) = TryConsume t (CHR 0x0A)
      in if r then
           (let t = ConsumeZeroOrMore t Class_WhitespaceNoNewline;
                (r, t) = TryConsume t CHR ''*''
            in if r then
                 (let (r, t) = TryConsume t CHR ''/'' in if r then (Break, t) else (Continue, t))
               else (Continue, t))
         else
           let (r, t) = and_also (\<lambda>t. TryConsume t CHR ''*'') (\<lambda>t. TryConsume t CHR ''/'') t
           in if r then (Break, t)
              else
                let (r, t) = TryConsume t CHR ''/''
                in if r \<and> current_char t = CHR ''*'' then
                     (Continue, AddError t ([CHR 0x22] @ ''/*'' @ [CHR 0x22] @
                        '' inside block comment.  Block comments cannot be nested.''))
                   else if current_char t = NUL then
                     (let t = AddError t ''End-of-file inside block comment.''
                      in (Break, t\<lparr>error_collector := error_collector t @
                            [(start_line, start_column, ''  Comment started here.'')]\<rparr>))
                   else (Continue, t))"

lemma remaining_ConsumeBlockComment_skip: "remaining (ConsumeBlockComment_skip t) \<le> remaining t"
proof (induction t rule: ConsumeBlockComment_skip.induct)
  case (1 t)
  show ?case
    using "1.IH" remaining_NextChar_le [of t]
    by (subst ConsumeBlockComment_skip.simps) auto
qed

lemma current_char_ConsumeBlockComment_skip:
  "current_char (ConsumeBlockComment_skip t) = NUL \<or>
   current_char (ConsumeBlockComment_skip t) = CHR ''*'' \<or>
   current_char (ConsumeBlockComment_skip t) = CHR ''/'' \<or>
   current_char (ConsumeBlockComment_skip t) = CHR 0x0A"
proof (induction t rule: ConsumeBlockComment_skip.induct)
  case (1 t)
  show ?case
    using "1.IH" by (subst (1 2 3 4) ConsumeBlockComment_skip.simps) auto
qed

lemma TryConsume_cases:
  "TryConsume t c = (r, t') \<Longrightarrow>
     (r \<and> current_char t = c \<and> t' = NextChar t) \<or> (\<not> r \<and> current_char t \<noteq> c \<and> t' = t)"
  by (auto simp: TryConsume_def split: if_splits)

lemma remaining_ConsumeBlockComment_body:
  assumes "ConsumeBlockComment_body t start_line start_column = (Continue, t')"
  shows "remaining t' < remaining t"
proof -
  define s where "s = ConsumeBlockComment_skip t"
  have s_le: "remaining s \<le> remaining t"
    unfolding s_def by (rule remaining_ConsumeBlockComment_skip)
  have s_cur: "current_char s = NUL \<or> current_char s = CHR ''*'' \<or>
      current_char s = CHR ''/'' \<or> current_char s = CHR 0x0A"
    unfolding s_def by (rule current_char_ConsumeBlockComment_skip)
  have step: "\<And>u. current_char u \<noteq> NUL \<Longrightarrow> remaining (NextChar u) < remaining u"
    by (rule remaining_NextChar_less) simp
  show ?thesis
  proof (cases "current_char s = CHR 0x0A")
    case True
    define w where "w = ConsumeZeroOrMore (NextChar s) Class_WhitespaceNoNewline"
    have w: "remaining w < remaining t"
      using remaining_ConsumeZeroOrMore [of "NextChar s" Class_WhitespaceNoNewline]
        step [of s] True s_le by (simp add: w_def)
    have "remaining t' \<le> remaining w"
      using assms True remaining_NextChar_le [of w] remaining_NextChar_le [of "NextChar w"]
      by (auto simp: ConsumeBlockComment_body_def s_def [symmetric] Let_def TryConsume_def
          w_def [symmetric] split: if_splits prod.splits)
    with w show ?thesis by simp
  next
    case nl: False
    show ?thesis
    proof (cases "current_char s = CHR ''*''")
      case True
      have 1: "remaining (NextChar s) < remaining t" using step [of s] True s_le by simp
      have "remaining t' \<le> remaining (NextChar s)"
        using assms True nl remaining_NextChar_le [of "NextChar s"]
        by (auto simp: ConsumeBlockComment_body_def s_def [symmetric] Let_def TryConsume_def
            and_also_def split: if_splits prod.splits)
      with 1 show ?thesis by simp
    next
      case ns: False
      show ?thesis
      proof (cases "current_char s = CHR ''/''")
        case True
        have 1: "remaining (NextChar s) < remaining t" using step [of s] True s_le by simp
        have "t' = NextChar s \<or> t' = AddError (NextChar s) ([CHR 0x22] @ ''/*'' @ [CHR 0x22] @
                        '' inside block comment.  Block comments cannot be nested.'')"
          using assms True nl ns
          by (auto simp: ConsumeBlockComment_body_def s_def [symmetric] Let_def TryConsume_def
              and_also_def split: if_splits prod.splits)
        with 1 show ?thesis by auto
      next
        case False
        with nl ns s_cur have "current_char s = NUL" by simp
        with assms nl ns False show ?thesis
          by (auto simp: ConsumeBlockComment_body_def s_def [symmetric] Let_def TryConsume_def
              and_also_def split: if_splits prod.splits)
      qed
    qed
  qed
qed

function ConsumeBlockComment_loop :: "upb_Tokenizer \<Rightarrow> int \<Rightarrow> int \<Rightarrow> upb_Tokenizer" where
  "ConsumeBlockComment_loop t start_line start_column =
     (case ConsumeBlockComment_body t start_line start_column of
        (Continue, t') \<Rightarrow> ConsumeBlockComment_loop t' start_line start_column
      | (Break, t') \<Rightarrow> t'
      | (Return r, t') \<Rightarrow> t')"
  by pat_completeness auto
termination
  by (relation "measure (\<lambda>(t, start_line, start_column). remaining t)")
    (auto dest: remaining_ConsumeBlockComment_body [OF sym])

declare ConsumeBlockComment_loop.simps [simp del]

definition ConsumeBlockComment :: "upb_Tokenizer \<Rightarrow> upb_Tokenizer" where
  "ConsumeBlockComment t = ConsumeBlockComment_loop t (line t) (c_int (column t - 2))"

text \<open>
  \<open>TryConsumeCommentStart\<close>. It calls \<open>upb_String_Assign(s, data, size)\<close>, which is
  not among the sources. Modelled from the spec: it makes the string hold the \<open>size\<close>
  bytes at \<open>data\<close>; here the string is \<open>current.text\<close> and the bytes are \<open>/\<close>.
\<close>

definition TryConsumeCommentStart :: "upb_Tokenizer \<Rightarrow> NextCommentStatus \<times> upb_Tokenizer" where
  "TryConsumeCommentStart t =
     (let (r, t) = (if comment_style t = UPB_COMMENT_STYLE_CPP then TryConsume t CHR ''/''
                    else (False, t))
      in if r then
           (let (r, t) = TryConsume t CHR ''/'' in
            if r then (LINE_COMMENT, t)
            else
              let (r, t) = TryConsume t CHR ''*'' in
              if r then (BLOCK_COMMENT, t)
              else
                (SLASH_NOT_COMMENT,
                 t\<lparr>current := (current t)\<lparr>tok_type := UPB_TOKENTYPE_SYMBOL, tok_text := ''/'',
                      tok_line := line t, tok_column := c_int (column t - 1),
                      tok_end_column := column t\<rparr>\<rparr>))
         else
           let (r, t) = (if comment_style t = UPB_COMMENT_STYLE_SH then TryConsume t CHR ''#''
                         else (False, t))
           in if r then (LINE_COMMENT, t) else (NO_COMMENT, t))"

subsection \<open>Whitespace and newlines\<close>

definition TryConsumeWhitespace :: "upb_Tokenizer \<Rightarrow> bool \<times> upb_Tokenizer" where
  "TryConsumeWhitespace t =
     (if report_newlines t then
        (let (r, t) = TryConsumeOne t Class_WhitespaceNoNewline in
         if r then
           (let t = ConsumeZeroOrMore t Class_WhitespaceNoNewline
            in (True, t\<lparr>current := (current t)\<lparr>tok_type := UPB_TOKENTYPE_WHITESPACE\<rparr>\<rparr>))
         else (False, t))
      else
        (let (r, t) = TryConsumeOne t Class_Whitespace in
         if r then
           (let t = ConsumeZeroOrMore t Class_Whitespace;
                t = t\<lparr>current := (current t)\<lparr>tok_type := UPB_TOKENTYPE_WHITESPACE\<rparr>\<rparr>
            in (report_whitespace t, t))
         else (False, t)))"

definition TryConsumeNewline :: "upb_Tokenizer \<Rightarrow> bool \<times> upb_Tokenizer" where
  "TryConsumeNewline t =
     (if \<not> report_whitespace t \<or> \<not> report_newlines t then (False, t)
      else
        let (r, t) = TryConsume t (CHR 0x0A) in
        if r then (True, t\<lparr>current := (current t)\<lparr>tok_type := UPB_TOKENTYPE_NEWLINE\<rparr>\<rparr>)
        else (False, t))"

subsection \<open>Accessors\<close>

text \<open>The two text size accessors return the \<open>size_t\<close> size of the string as an \<open>int\<close>.\<close>

definition upb_Tokenizer_CurrentColumn :: "upb_Tokenizer \<Rightarrow> int" where
  "upb_Tokenizer_CurrentColumn t = tok_column (current t)"

definition upb_Tokenizer_CurrentEndColumn :: "upb_Tokenizer \<Rightarrow> int" where
  "upb_Tokenizer_CurrentEndColumn t = tok_end_column (current t)"

definition upb_Tokenizer_CurrentLine :: "upb_Tokenizer \<Rightarrow> int" where
  "upb_Tokenizer_CurrentLine t = tok_line (current t)"

definition upb_Tokenizer_CurrentTextSize :: "upb_Tokenizer \<Rightarrow> int" where
  "upb_Tokenizer_CurrentTextSize t = c_int (int (length (tok_text (current t))))"

definition upb_Tokenizer_CurrentTextData :: "upb_Tokenizer \<Rightarrow> string" where
  "upb_Tokenizer_CurrentTextData t = tok_text (current t)"

definition upb_Tokenizer_CurrentType :: "upb_Tokenizer \<Rightarrow> upb_TokenType" where
  "upb_Tokenizer_CurrentType t = tok_type (current t)"

definition upb_Tokenizer_PreviousColumn :: "upb_Tokenizer \<Rightarrow> int" where
  "upb_Tokenizer_PreviousColumn t = tok_column (previous t)"

definition upb_Tokenizer_PreviousEndColumn :: "upb_Tokenizer \<Rightarrow> int" where
  "upb_Tokenizer_PreviousEndColumn t = tok_end_column (previous t)"

definition upb_Tokenizer_PreviousLine :: "upb_Tokenizer \<Rightarrow> int" where
  "upb_Tokenizer_PreviousLine t = tok_line (previous t)"

definition upb_Tokenizer_PreviousTextSize :: "upb_Tokenizer \<Rightarrow> int" where
  "upb_Tokenizer_PreviousTextSize t = c_int (int (length (tok_text (previous t))))"

definition upb_Tokenizer_PreviousTextData :: "upb_Tokenizer \<Rightarrow> string" where
  "upb_Tokenizer_PreviousTextData t = tok_text (previous t)"

definition upb_Tokenizer_PreviousType :: "upb_Tokenizer \<Rightarrow> upb_TokenType" where
  "upb_Tokenizer_PreviousType t = tok_type (previous t)"

section \<open>\<open>upb_Tokenizer_Next\<close>\<close>

definition upb_Token_Init :: upb_Token where
  "upb_Token_Init =
     \<lparr>tok_type = UPB_TOKENTYPE_START, tok_line = 0, tok_column = 0, tok_end_column = 0,
      tok_text = []\<rparr>"

definition upb_Token_Copy :: "upb_Token \<Rightarrow> upb_Token \<Rightarrow> upb_Token" where
  "upb_Token_Copy des src =
     des\<lparr>tok_text := tok_text src, tok_type := tok_type src, tok_line := tok_line src,
         tok_column := tok_column src, tok_end_column := tok_end_column src\<rparr>"

text \<open>
  The loop that skips control characters:
  \<open>while (TryConsumeOne(t, Unprintable) || (!t->read_error && TryConsume(t, '\0')))\<close>.
\<close>

definition Next_skip_cond :: "upb_Tokenizer \<Rightarrow> bool \<times> upb_Tokenizer" where
  "Next_skip_cond =
     or_else (\<lambda>t. TryConsumeOne t Class_Unprintable)
             (\<lambda>t. if \<not> read_error t then TryConsume t NUL else (False, t))"

lemma remaining_Next_skip_cond:
  "fst (Next_skip_cond t) \<Longrightarrow> remaining (snd (Next_skip_cond t)) < remaining t"
  by (auto simp: Next_skip_cond_def or_else_def TryConsumeOne_def TryConsume_def
      Unprintable_def intro: remaining_NextChar_less split: if_splits)

function Next_skip :: "upb_Tokenizer \<Rightarrow> upb_Tokenizer" where
  "Next_skip t =
     (if fst (Next_skip_cond t) then Next_skip (snd (Next_skip_cond t))
      else snd (Next_skip_cond t))"
  by pat_completeness auto
termination
  by (relation "measure remaining") (auto intro: remaining_Next_skip_cond)

declare Next_skip.simps [simp del]

text \<open>\<open>snprintf\<close> with \<open>%d\<close> of a byte value: its decimal digits.\<close>

fun decimal :: "nat \<Rightarrow> string" where
  "decimal n = (if n < 10 then [char_of (48 + n)]
                else decimal (n div 10) @ [char_of (48 + n mod 10)])"

declare decimal.simps [simp del]

text \<open>The branch of \<open>upb_Tokenizer_Next\<close> that reads a token, up to its \<open>EndToken\<close>.\<close>

definition Next_token :: "upb_Tokenizer \<Rightarrow> upb_Tokenizer" where
  "Next_token t =
     (let t = StartToken t;
          (r, t) = TryConsumeOne t Class_Letter;
          t =
            (if r then
               (let t = ConsumeZeroOrMore t Class_Alphanumeric
                in t\<lparr>current := (current t)\<lparr>tok_type := UPB_TOKENTYPE_IDENTIFIER\<rparr>\<rparr>)
             else
               let (r, t) = TryConsume t CHR ''0'' in
               if r then
                 (let (ty, t) = ConsumeNumber t True False
                  in t\<lparr>current := (current t)\<lparr>tok_type := ty\<rparr>\<rparr>)
               else
                 let (r, t) = TryConsume t CHR ''.'' in
                 if r then
                   (let (r, t) = TryConsumeOne t Class_Digit in
                    if r then
                      (let t = (if tok_type (previous t) = UPB_TOKENTYPE_IDENTIFIER \<and>
                                   tok_line (current t) = tok_line (previous t) \<and>
                                   tok_column (current t) = tok_end_column (previous t)
                                then t\<lparr>error_collector := error_collector t @
                                       [(line t, c_int (column t - 2),
                                         ''Need space between identifier and decimal point.'')]\<rparr>
                                else t);
                           (ty, t) = ConsumeNumber t False True
                       in t\<lparr>current := (current t)\<lparr>tok_type := ty\<rparr>\<rparr>)
                    else t\<lparr>current := (current t)\<lparr>tok_type := UPB_TOKENTYPE_SYMBOL\<rparr>\<rparr>)
                 else
                   let (r, t) = TryConsumeOne t Class_Digit in
                   if r then
                     (let (ty, t) = ConsumeNumber t False False
                      in t\<lparr>current := (current t)\<lparr>tok_type := ty\<rparr>\<rparr>)
                   else
                     let (r, t) = TryConsume t (CHR 0x22) in
                     if r then
                       (let t = ConsumeString t (CHR 0x22)
                        in t\<lparr>current := (current t)\<lparr>tok_type := UPB_TOKENTYPE_STRING\<rparr>\<rparr>)
                     else
                       let (r, t) = TryConsume t (CHR 0x27) in
                       if r then
                         (let t = ConsumeString t (CHR 0x27)
                          in t\<lparr>current := (current t)\<lparr>tok_type := UPB_TOKENTYPE_STRING\<rparr>\<rparr>)
                       else
                         let t = (if (of_char (current_char t) :: nat) \<ge> 128
                                  then t\<lparr>error_collector := error_collector t @
                                         [(line t, column t,
                                           ''Interpreting non ascii codepoint '' @
                                           decimal (of_char (current_char t)) @ ''.'')]\<rparr>
                                  else t);
                             t = NextChar t
                         in t\<lparr>current := (current t)\<lparr>tok_type := UPB_TOKENTYPE_SYMBOL\<rparr>\<rparr>)
      in EndToken t)"

text \<open>One pass through the body of the loop of \<open>upb_Tokenizer_Next\<close>.\<close>

definition Next_body :: "upb_Tokenizer \<Rightarrow> flow \<times> upb_Tokenizer" where
  "Next_body t =
     (let t = StartToken t;
          (report_token, t) = or_else TryConsumeWhitespace TryConsumeNewline t;
          t = EndToken t
      in if report_token then (Return True, t)
         else
           case TryConsumeCommentStart t of
             (LINE_COMMENT, t) \<Rightarrow> (Continue, ConsumeLineComment t)
           | (BLOCK_COMMENT, t) \<Rightarrow> (Continue, ConsumeBlockComment t)
           | (SLASH_NOT_COMMENT, t) \<Rightarrow> (Return True, t)
           | (NO_COMMENT, t) \<Rightarrow>
               if read_error t then (Break, t)
               else if LookingAt t Class_Unprintable \<or> current_char t = NUL then
                 (Continue,
                  Next_skip (NextChar
                    (AddError t ''Invalid control characters encountered in text.'')))
               else (Return True, Next_token t))"

text \<open>What follows the loop: the token \<open>END\<close>, and the result false.\<close>

definition Next_EOF :: "upb_Tokenizer \<Rightarrow> bool \<times> upb_Tokenizer" where
  "Next_EOF t =
     (False,
      t\<lparr>current := (current t)\<lparr>tok_type := UPB_TOKENTYPE_END, tok_text := [],
           tok_line := line t, tok_column := column t, tok_end_column := column t\<rparr>\<rparr>)"

lemma remaining_StartToken [simp]: "remaining (StartToken t) = remaining t"
  by (simp add: StartToken_def RecordTo_def remaining_def)

lemma remaining_EndToken [simp]: "remaining (EndToken t) = remaining t"
  by (simp add: EndToken_def StopRecording_def upb_String_Append_def remaining_def Let_def)

lemma remaining_current_update [simp]: "remaining (t\<lparr>current := c\<rparr>) = remaining t"
  by (simp add: remaining_def)

lemma remaining_TryConsumeWhitespace: "remaining (snd (TryConsumeWhitespace t)) \<le> remaining t"
proof -
  have "\<And>f. remaining (ConsumeZeroOrMore (NextChar t) f) \<le> remaining t"
    using remaining_ConsumeZeroOrMore [of "NextChar t"] remaining_NextChar_le [of t]
    by (meson order_trans)
  then show ?thesis
    by (simp add: TryConsumeWhitespace_def TryConsumeOne_def Let_def)
qed

lemma remaining_TryConsumeNewline: "remaining (snd (TryConsumeNewline t)) \<le> remaining t"
  using remaining_NextChar_le [of t]
  by (simp add: TryConsumeNewline_def TryConsume_def Let_def)

lemma remaining_error_collector_update [simp]:
  "remaining (t\<lparr>error_collector := e\<rparr>) = remaining t"
  by (simp add: remaining_def)

lemma remaining_ConsumeBlockComment_body_le:
  "remaining (snd (ConsumeBlockComment_body t l c)) \<le> remaining t"
proof -
  define s where "s = ConsumeBlockComment_skip t"
  have s_le: "remaining s \<le> remaining t"
    unfolding s_def by (rule remaining_ConsumeBlockComment_skip)
  obtain r1 t1 where a: "TryConsume s (CHR 0x0A) = (r1, t1)"
    by (cases "TryConsume s (CHR 0x0A)") auto
  have t1: "remaining t1 \<le> remaining s" using a by (rule remaining_TryConsume_eq)
  show ?thesis
  proof (cases r1)
    case True
    define w where "w = ConsumeZeroOrMore t1 Class_WhitespaceNoNewline"
    have w: "remaining w \<le> remaining t1" unfolding w_def by (rule remaining_ConsumeZeroOrMore)
    obtain r2 t2 where b: "TryConsume w CHR ''*'' = (r2, t2)"
      by (cases "TryConsume w CHR ''*''") auto
    have t2: "remaining t2 \<le> remaining w" using b by (rule remaining_TryConsume_eq)
    obtain r3 t3 where d: "TryConsume t2 CHR ''/'' = (r3, t3)"
      by (cases "TryConsume t2 CHR ''/''") auto
    have t3: "remaining t3 \<le> remaining t2" using d by (rule remaining_TryConsume_eq)
    have "snd (ConsumeBlockComment_body t l c) = t2 \<or> snd (ConsumeBlockComment_body t l c) = t3"
      using True a b d
      by (simp add: ConsumeBlockComment_body_def s_def [symmetric] Let_def w_def [symmetric])
    then show ?thesis using s_le t1 w t2 t3 by auto
  next
    case False
    obtain r2 t2 where b: "and_also (\<lambda>t. TryConsume t CHR ''*'') (\<lambda>t. TryConsume t CHR ''/'') t1
        = (r2, t2)"
      by (cases "and_also (\<lambda>t. TryConsume t CHR ''*'') (\<lambda>t. TryConsume t CHR ''/'') t1") auto
    have "remaining (snd (and_also (\<lambda>t. TryConsume t CHR ''*'') (\<lambda>t. TryConsume t CHR ''/'') t1))
        \<le> remaining t1"
      by (intro remaining_and_also remaining_TryConsume)
    then have t2: "remaining t2 \<le> remaining t1" using b by simp
    obtain r3 t3 where d: "TryConsume t2 CHR ''/'' = (r3, t3)"
      by (cases "TryConsume t2 CHR ''/''") auto
    have t3: "remaining t3 \<le> remaining t2" using d by (rule remaining_TryConsume_eq)
    have "remaining (snd (ConsumeBlockComment_body t l c)) = remaining t2 \<or>
          remaining (snd (ConsumeBlockComment_body t l c)) = remaining t3"
      using False a b d
      by (simp add: ConsumeBlockComment_body_def s_def [symmetric] Let_def)
    then show ?thesis using s_le t1 t2 t3 by auto
  qed
qed

lemma remaining_ConsumeBlockComment_loop:
  "remaining (ConsumeBlockComment_loop t l c) \<le> remaining t"
proof (induction t l c rule: ConsumeBlockComment_loop.induct)
  case (1 t l c)
  obtain fl t' where b: "ConsumeBlockComment_body t l c = (fl, t')"
    by (cases "ConsumeBlockComment_body t l c") auto
  have le: "remaining t' \<le> remaining t"
    using remaining_ConsumeBlockComment_body_le [of t l c] b by simp
  show ?case
  proof (cases fl)
    case Continue
    have "remaining (ConsumeBlockComment_loop t' l c) \<le> remaining t'"
      using "1.IH" b Continue by auto
    then show ?thesis
      using b Continue le by (subst ConsumeBlockComment_loop.simps) simp
  next
    case Break
    then show ?thesis
      using b le by (subst ConsumeBlockComment_loop.simps) simp
  next
    case (Return r)
    then show ?thesis
      using b le by (subst ConsumeBlockComment_loop.simps) simp
  qed
qed

lemma remaining_ConsumeBlockComment: "remaining (ConsumeBlockComment t) \<le> remaining t"
  by (simp add: ConsumeBlockComment_def remaining_ConsumeBlockComment_loop)

lemma remaining_Next_skip: "remaining (Next_skip t) \<le> remaining t"
proof (induction t rule: Next_skip.induct)
  case (1 t)
  show ?case
  proof (cases "fst (Next_skip_cond t)")
    case True
    then show ?thesis
      using "1.IH" remaining_Next_skip_cond [of t]
      by (subst Next_skip.simps) simp
  next
    case False
    then have "snd (Next_skip_cond t) = t"
      by (auto simp: Next_skip_cond_def or_else_def TryConsumeOne_def TryConsume_def
          split: if_splits)
    then show ?thesis using False by (subst Next_skip.simps) simp
  qed
qed

lemma TryConsumeCommentStart_cases:
  assumes "TryConsumeCommentStart t = (st, t')"
  shows "(st = NO_COMMENT \<longrightarrow> t' = t) \<and>
         (st = LINE_COMMENT \<or> st = BLOCK_COMMENT \<longrightarrow> remaining t' < remaining t)"
proof -
  have 1: "\<And>u c. current_char u = c \<Longrightarrow> c \<noteq> NUL \<Longrightarrow> remaining (NextChar u) < remaining u"
    by (rule remaining_NextChar_less) simp
  have 2: "\<And>u. remaining (NextChar u) \<le> remaining u"
    by (rule remaining_NextChar_le)
  show ?thesis
    using assms 1 [of t "CHR ''/''"] 1 [of t "CHR ''#''"] 2 [of "NextChar t"]
    by (auto simp: TryConsumeCommentStart_def TryConsume_def Let_def split: if_splits)
qed

lemma remaining_Next_body:
  assumes "Next_body t = (Continue, t')"
  shows "remaining t' < remaining t"
proof -
  obtain rep t1 where a: "or_else TryConsumeWhitespace TryConsumeNewline (StartToken t) = (rep, t1)"
    by (cases "or_else TryConsumeWhitespace TryConsumeNewline (StartToken t)") auto
  have "remaining (snd (or_else TryConsumeWhitespace TryConsumeNewline (StartToken t)))
      \<le> remaining (StartToken t)"
    by (intro remaining_or_else remaining_TryConsumeWhitespace remaining_TryConsumeNewline)
  then have t1: "remaining t1 \<le> remaining t" using a by simp
  define t2 where "t2 = EndToken t1"
  have t2: "remaining t2 \<le> remaining t" using t1 by (simp add: t2_def)
  obtain st t3 where b: "TryConsumeCommentStart t2 = (st, t3)"
    by (cases "TryConsumeCommentStart t2") auto
  note c = TryConsumeCommentStart_cases [OF b]
  from assms a b have nrep: "\<not> rep"
    by (auto simp: Next_body_def Let_def t2_def [symmetric] split: if_splits)
  show ?thesis
  proof (cases st)
    case LINE_COMMENT
    then have "t' = ConsumeLineComment t3"
      using assms a b nrep by (simp add: Next_body_def Let_def t2_def [symmetric])
    then show ?thesis
      using c LINE_COMMENT t2 remaining_ConsumeLineComment [of t3] by simp
  next
    case BLOCK_COMMENT
    then have "t' = ConsumeBlockComment t3"
      using assms a b nrep by (simp add: Next_body_def Let_def t2_def [symmetric])
    then show ?thesis
      using c BLOCK_COMMENT t2 remaining_ConsumeBlockComment [of t3] by simp
  next
    case SLASH_NOT_COMMENT
    then show ?thesis
      using assms a b nrep by (simp add: Next_body_def Let_def t2_def [symmetric])
  next
    case NO_COMMENT
    then have e: "t3 = t2" using c by simp
    from assms a b nrep NO_COMMENT e
    have nr: "\<not> read_error t2"
      and t': "t' = Next_skip
        (NextChar (AddError t2 ''Invalid control characters encountered in text.''))"
      by (auto simp: Next_body_def Let_def t2_def [symmetric] split: if_splits)
    have "remaining (NextChar (AddError t2 ''Invalid control characters encountered in text.''))
        < remaining (AddError t2 ''Invalid control characters encountered in text.'')"
      using nr by (intro remaining_NextChar_less) (simp add: AddError_def)
    then show ?thesis
      using t2 remaining_Next_skip
        [of "NextChar (AddError t2 ''Invalid control characters encountered in text.'')"]
      by (simp add: t')
  qed
qed

function Next_loop :: "upb_Tokenizer \<Rightarrow> bool \<times> upb_Tokenizer" where
  "Next_loop t =
     (if read_error t then Next_EOF t
      else
        case Next_body t of
          (Continue, t') \<Rightarrow> Next_loop t'
        | (Break, t') \<Rightarrow> Next_EOF t'
        | (Return r, t') \<Rightarrow> (r, t'))"
  by pat_completeness auto
termination
  by (relation "measure remaining") (auto dest: remaining_Next_body [OF sym])

declare Next_loop.simps [simp del]

text \<open>
  \<open>upb_Tokenizer_Next\<close> gives the returned flag and the tokenizer as the call leaves it.
\<close>

definition upb_Tokenizer_Next :: "upb_Tokenizer \<Rightarrow> bool \<times> upb_Tokenizer" where
  "upb_Tokenizer_Next t =
     Next_loop (t\<lparr>previous := upb_Token_Copy (previous t) (current t)\<rparr>)"

text \<open>
  \<open>upb_Tokenizer_New\<close>, for the flat array \<open>data\<close> and the stream \<open>input\<close>. The arena
  is not modelled, so the allocation does not fail; the errors collected are none yet.
\<close>

definition upb_Tokenizer_New :: "string \<Rightarrow> string list \<Rightarrow> upb_Tokenizer" where
  "upb_Tokenizer_New data input_stream =
     (let t = \<lparr>current = upb_Token_Init, previous = upb_Token_Init, input = input_stream,
               error_collector = [], current_char = NUL, buffer = data, buffer_pos = 0,
               read_error = False, line = 0, column = 0, record_target = None,
               record_start = - 1, allow_f_after_float = False,
               comment_style = UPB_COMMENT_STYLE_CPP, require_space_after_number = True,
               allow_multiline_strings = False, report_whitespace = False,
               report_newlines = False\<rparr>
      in if length data > 0 then t\<lparr>current_char := data ! 0\<rparr> else Refresh t)"

section \<open>\<open>upb_Tokenizer_IsIdentifier\<close>\<close>





section \<open>Numeric values of digit strings\<close>

text \<open>
  The number a digit string denotes in a base, digit by digit from an accumulator, and
  the test that every digit is one of the base.
\<close>

definition digits_value :: "int \<Rightarrow> int \<Rightarrow> string \<Rightarrow> int" where
  "digits_value base acc ds = foldl (\<lambda>a c. a * base + DigitValue c) acc ds"

definition digits_valid :: "int \<Rightarrow> string \<Rightarrow> bool" where
  "digits_valid base ds \<longleftrightarrow> (\<forall>c \<in> set ds. DigitValue c < base)"

definition hex_value :: "string \<Rightarrow> nat" where
  "hex_value hs = foldl (\<lambda>a c. a * 16 + nat (DigitValue c)) 0 hs"

text \<open>The bytes \<open>0-9\<close>, \<open>A-Z\<close>, \<open>a-z\<close>: the ones the digit table gives a value below 36.\<close>

definition base36_digit :: "char \<Rightarrow> bool" where
  "base36_digit c \<longleftrightarrow> Digit c \<or> (CHR ''A'' \<le> c \<and> c \<le> CHR ''Z'') \<or> (CHR ''a'' \<le> c \<and> c \<le> CHR ''z'')"

text \<open>
  The four-byte form of UTF-8, for the code points from \<open>0x10000\<close> to \<open>0x10FFFF\<close>:
  \<open>11110xxx 10xxxxxx 10xxxxxx 10xxxxxx\<close>.
\<close>

definition utf8_four_bytes :: "32 word \<Rightarrow> string" where
  "utf8_four_bytes cp =
     [char_of (unat (0xF0 OR drop_bit 18 cp)),
      char_of (unat (0x80 OR (drop_bit 12 cp AND 0x3F))),
      char_of (unat (0x80 OR (drop_bit 6 cp AND 0x3F))),
      char_of (unat (0x80 OR (cp AND 0x3F)))]"

section \<open>Notions used to state the properties of the scanner\<close>

text \<open>
  The first and the second token of a source text, given as one flat array with no stream
  behind it and read with the default options.
\<close>

definition first_token :: "string \<Rightarrow> upb_Token" where
  "first_token src = current (snd (upb_Tokenizer_Next (upb_Tokenizer_New src [])))"

definition second_token :: "string \<Rightarrow> upb_Token" where
  "second_token src =
     current (snd (upb_Tokenizer_Next (snd (upb_Tokenizer_Next (upb_Tokenizer_New src [])))))"

text \<open>The token \<open>END\<close> with empty text, at the line and column of the reader.\<close>

definition END_token :: "upb_Tokenizer \<Rightarrow> upb_Token" where
  "END_token t =
     \<lparr>tok_type = UPB_TOKENTYPE_END, tok_line = line t, tok_column = column t,
      tok_end_column = column t, tok_text = []\<rparr>"


text \<open>
  The tokenizers a client can hold: a new one, and what the calls of the interface make
  of one.
\<close>

inductive reachable :: "upb_Tokenizer \<Rightarrow> bool" where
  New: "reachable (upb_Tokenizer_New data input_stream)"
| Next: "reachable t \<Longrightarrow> reachable (snd (upb_Tokenizer_Next t))"
| SetAllowFAfterFloat: "reachable t \<Longrightarrow> reachable (upb_Tokenizer_SetAllowFAfterFloat t b)"
| SetCommentStyle: "reachable t \<Longrightarrow> reachable (upb_Tokenizer_SetCommentStyle t style)"
| SetRequireSpaceAfterNumber:
    "reachable t \<Longrightarrow> reachable (upb_Tokenizer_SetRequireSpaceAfterNumber t b)"
| SetAllowMultilineStrings:
    "reachable t \<Longrightarrow> reachable (upb_Tokenizer_SetAllowMultilineStrings t b)"
| SetReportWhitespace: "reachable t \<Longrightarrow> reachable (upb_Tokenizer_SetReportWhitespace t b)"
| SetReportNewlines: "reachable t \<Longrightarrow> reachable (upb_Tokenizer_SetReportNewlines t b)"

text \<open>
  The invariant of the reader: before the end of input \<open>current_char\<close> is the byte at
  \<open>buffer_pos\<close>, which lies in the buffer; after it the buffer is empty and
  \<open>current_char\<close> is NUL.
\<close>

definition buffer_ok :: "upb_Tokenizer \<Rightarrow> bool" where
  "buffer_ok t \<longleftrightarrow>
     (if read_error t then current_char t = NUL \<and> buffer t = []
      else buffer_pos t < buffer_size t \<and> current_char t = buffer t ! buffer_pos t)"

text \<open>
  The chunks fit when the one in the buffer and those the stream has yet to hand out are
  at most \<open>INT_MAX\<close> bytes long each: then a position in a chunk is an \<open>int\<close>.
\<close>

definition chunks_fit :: "upb_Tokenizer \<Rightarrow> bool" where
  "chunks_fit t \<longleftrightarrow>
     int (buffer_size t) \<le> INT_MAX \<and> list_all (\<lambda>c. int (length c) \<le> INT_MAX) (input t)"

text \<open>
  The bytes the reader has yet to consume: the rest of the chunk in the buffer, then the
  chunks of the stream up to the first empty one, which ends the input.
\<close>

definition pending :: "upb_Tokenizer \<Rightarrow> string" where
  "pending t =
     (if read_error t then []
      else drop (buffer_pos t) (buffer t) @ concat (takeWhile (\<lambda>c. c \<noteq> []) (input t)))"



text \<open>
  A property of the tokenizer is stable when the steps every consumer is made of keep
  it: \<open>NextChar\<close>, a new error after those collected, and the assignments to the
  current token and the two recording fields. It is steady when the first two keep it:
  these are the steps of the consumers that read the rest of a token.
\<close>

definition steady :: "(upb_Tokenizer \<Rightarrow> bool) \<Rightarrow> bool" where
  "steady P \<longleftrightarrow>
     (\<forall>t. P t \<longrightarrow> P (NextChar t)) \<and>
     (\<forall>t e. P t \<longrightarrow> P (t\<lparr>error_collector := error_collector t @ [e]\<rparr>))"

definition stable :: "(upb_Tokenizer \<Rightarrow> bool) \<Rightarrow> bool" where
  "stable P \<longleftrightarrow>
     steady P \<and>
     (\<forall>t c. P t \<longrightarrow> P (t\<lparr>current := c\<rparr>)) \<and>
     (\<forall>t a. P t \<longrightarrow> P (t\<lparr>record_target := a\<rparr>)) \<and>
     (\<forall>t b. P t \<longrightarrow> P (t\<lparr>record_start := b\<rparr>))"

text \<open>The first half of \<open>NextChar\<close>: the counters and \<open>buffer_pos\<close>, before the next byte is read.\<close>

definition NextChar_counted :: "upb_Tokenizer \<Rightarrow> upb_Tokenizer" where
  "NextChar_counted t =
     (let t = (if current_char t = CHR 0x0A then t\<lparr>line := c_int (line t + 1), column := 0\<rparr>
               else if current_char t = CHR 0x09
               then t\<lparr>column := c_int (column t + (kTabWidth - column t smod kTabWidth))\<rparr>
               else t\<lparr>column := c_int (column t + 1)\<rparr>)
      in t\<lparr>buffer_pos := buffer_pos t + 1\<rparr>)"

section \<open>Properties of the digit table\<close>

lemma c_str_Nil [simp]: "c_str [] = []"
  by (simp add: c_str_def)

lemma c_str_Cons [simp]: "c_str (c # ptr) = (if c = NUL then [] else c # c_str ptr)"
  by (simp add: c_str_def)

lemma c_at_Cons_0 [simp]: "c_at (c # ptr) 0 = c"
  by (simp add: c_at_def)

lemma c_at_Cons_Suc [simp]: "c_at (c # ptr) (Suc n) = c_at ptr n"
  by (simp add: c_at_def)

lemma c_at_Nil [simp]: "c_at [] n = NUL"
  by (simp add: c_at_def)

lemma kAsciiToInt_length: "length kAsciiToInt = 256"
  by (simp add: kAsciiToInt_def)

lemma kAsciiToInt_table:
  "kAsciiToInt =
   map (\<lambda>n. if 48 \<le> n \<and> n \<le> 57 then int n - 48
            else if 65 \<le> n \<and> n \<le> 90 then int n - 55
            else if 97 \<le> n \<and> n \<le> 122 then int n - 87 else 36) [0..<256]"
  by code_simp

lemma DigitValue_eq:
  "DigitValue c =
     (if CHR ''0'' \<le> c \<and> c \<le> CHR ''9'' then int (of_char c) - 48
      else if CHR ''A'' \<le> c \<and> c \<le> CHR ''Z'' then int (of_char c) - 55
      else if CHR ''a'' \<le> c \<and> c \<le> CHR ''z'' then int (of_char c) - 87 else 36)"
proof -
  have n: "(of_char c :: nat) < 256" by simp
  have "kAsciiToInt ! of_char c =
    map (\<lambda>n. if 48 \<le> n \<and> n \<le> 57 then int n - 48
            else if 65 \<le> n \<and> n \<le> 90 then int n - 55
            else if 97 \<le> n \<and> n \<le> 122 then int n - 87 else 36) [0..<256] ! of_char c"
    by (simp only: kAsciiToInt_table [symmetric])
  then show ?thesis using n
    by (simp add: DigitValue_def less_eq_char_def del: upt_Suc)
qed

lemma DigitValue_range: "0 \<le> DigitValue c \<and> DigitValue c \<le> 36"
  by (simp add: DigitValue_eq less_eq_char_def)

lemma DigitValue_36_iff: "DigitValue c = 36 \<longleftrightarrow> \<not> base36_digit c"
  by (auto simp: DigitValue_eq base36_digit_def Digit_def less_eq_char_def)

lemma Digit_iff: "Digit c \<longleftrightarrow> DigitValue c < 10"
  by (auto simp: DigitValue_eq Digit_def less_eq_char_def)

lemma OctalDigit_iff: "OctalDigit c \<longleftrightarrow> DigitValue c < 8"
  by (auto simp: DigitValue_eq OctalDigit_def less_eq_char_def)

lemma HexDigit_iff: "HexDigit c \<longleftrightarrow> DigitValue c < 16"
  by (auto simp: DigitValue_eq HexDigit_def less_eq_char_def)

section \<open>Properties of \<open>upb_Parse_Integer\<close>\<close>

lemma digits_value_Nil [simp]: "digits_value base acc [] = acc"
  by (simp add: digits_value_def)

lemma digits_value_Cons [simp]:
  "digits_value base acc (c # ds) = digits_value base (acc * base + DigitValue c) ds"
  by (simp add: digits_value_def)

lemma digits_value_mono:
  "1 \<le> base \<Longrightarrow> 0 \<le> acc \<Longrightarrow> acc \<le> digits_value base acc ds"
proof (induction ds arbitrary: acc)
  case Nil
  then show ?case by simp
next
  case (Cons c ds)
  have d: "0 \<le> DigitValue c" using DigitValue_range by simp
  have "acc * 1 \<le> acc * base" using Cons.prems by (intro mult_left_mono) auto
  then have le: "acc \<le> acc * base + DigitValue c" using d by simp
  then have "0 \<le> acc * base + DigitValue c" using Cons.prems by linarith
  from Cons.IH [OF Cons.prems(1) this] le show ?case by simp
qed

lemma div_succ_mult_gt: "0 < b \<Longrightarrow> (n::int) < (n div b + 1) * b"
proof -
  assume b: "0 < b"
  have "n = n div b * b + n mod b" by simp
  moreover have "n mod b < b" using b by simp
  ultimately have "n < n div b * b + b" by linarith
  then show ?thesis by (simp add: distrib_right)
qed

lemma div_mult_le_self: "0 < b \<Longrightarrow> 0 \<le> n \<Longrightarrow> (n::int) div b * b \<le> n"
proof -
  assume b: "0 < b" and n: "0 \<le> n"
  have "n = n div b * b + n mod b" by simp
  moreover have "0 \<le> n mod b" using b by simp
  ultimately show ?thesis by linarith
qed

lemma accum_exact:
  assumes base: "1 \<le> base" "base \<le> 36"
    and ovf: "uint ovf = (2 ^ 64 - 1) div base + 1"
  shows "1 \<le> uint r \<Longrightarrow>
    Parse_Integer_accum base ovf r ptr =
      (if digits_valid base (c_str ptr) \<and> digits_value base (uint r) (c_str ptr) < 2 ^ 64
       then Some (word_of_int (digits_value base (uint r) (c_str ptr))) else None)"
proof (induction ptr arbitrary: r)
  case Nil
  have "uint r < 2 ^ 64" using uint_bounded [of r] by simp
  then show ?case by (simp add: digits_valid_def)
next
  case (Cons c ptr)
  have rb: "uint r < 2 ^ 64" using uint_bounded [of r] by simp
  show ?case
  proof (cases "c = NUL")
    case True
    then show ?thesis using rb by (simp add: digits_valid_def)
  next
    case nz: False
    define d where "d = DigitValue c"
    have d0: "0 \<le> d" using DigitValue_range by (simp add: d_def)
    show ?thesis
    proof (cases "d < base")
      case False
      then show ?thesis using nz by (simp add: digits_valid_def d_def Let_def)
    next
      case dlt: True
      define e where "e = uint r * base + d"
      have e1: "base \<le> e"
      proof -
        have "1 * base \<le> uint r * base" using Cons.prems base by (intro mult_right_mono) auto
        then show ?thesis using d0 by (simp add: e_def)
      qed
      have wb: "uint (word_of_int base :: 64 word) = base"
        using base by (simp add: uint_word_of_int take_bit_int_eq_self)
      show ?thesis
      proof (cases "r \<ge> ovf")
        case True
        then have "(2 ^ 64 - 1) div base + 1 \<le> uint r"
          using ovf by (simp add: word_le_def)
        then have "((2 ^ 64 - 1) div base + 1) * base \<le> uint r * base"
          using base by (intro mult_right_mono) auto
        moreover have "(2 ^ 64 - 1 :: int) < ((2 ^ 64 - 1) div base + 1) * base"
          using base by (intro div_succ_mult_gt) auto
        ultimately have big: "2 ^ 64 \<le> e" using d0 by (simp add: e_def)
        have "e \<le> digits_value base e (c_str ptr)"
          by (rule digits_value_mono) (use base e1 in auto)
        then have "\<not> digits_value base e (c_str ptr) < 2 ^ 64" using big by linarith
        then show ?thesis using nz True dlt d0
          by (simp add: d_def [symmetric] e_def [symmetric] Let_def)
      next
        case False
        then have "uint r \<le> (2 ^ 64 - 1) div base"
          using ovf by (simp add: word_le_def)
        then have "uint r * base \<le> (2 ^ 64 - 1) div base * base"
          using base by (intro mult_right_mono) auto
        also have "\<dots> \<le> 2 ^ 64 - 1"
          using base by (intro div_mult_le_self) auto
        finally have eub: "e < 2 ^ 64 + base - 1" using dlt by (simp add: e_def)
        define r' :: "64 word" where "r' = r * word_of_int base + word_of_int d"
        have r'_eq: "r' = word_of_int e"
          by (simp add: r'_def e_def)
        show ?thesis
        proof (cases "e < 2 ^ 64")
          case True
          then have ur': "uint r' = e"
            using e1 base by (simp add: r'_eq uint_word_of_int take_bit_int_eq_self)
          then have "\<not> r' < word_of_int base"
            using e1 wb by (simp add: word_less_def)
          moreover have "1 \<le> uint r'" using ur' e1 base by simp
          note Cons.IH [OF this]
          ultimately show ?thesis using nz False dlt d0 ur'
            by (simp add: d_def [symmetric] r'_def [symmetric] e_def [symmetric] Let_def digits_valid_def)
        next
          case ebig: False
          have "uint r' = e mod 2 ^ 64"
            by (simp add: r'_eq uint_word_of_int take_bit_eq_mod)
          also have "\<dots> = e - 2 ^ 64"
          proof -
            have "e mod 2 ^ 64 = (e - 2 ^ 64) mod 2 ^ 64"
              by (simp add: mod_diff_right_eq [symmetric])
            also have "\<dots> = e - 2 ^ 64"
              using ebig eub base by (intro mod_pos_pos_trivial) auto
            finally show ?thesis .
          qed
          finally have "uint r' < base" using eub by simp
          then have lt: "r' < word_of_int base" using wb by (simp add: word_less_def)
          have "e \<le> digits_value base e (c_str ptr)"
            by (rule digits_value_mono) (use base e1 in auto)
          then have "\<not> digits_value base e (c_str ptr) < 2 ^ 64" using ebig by linarith
          then show ?thesis using nz False dlt d0 lt
            by (simp add: d_def [symmetric] r'_def [symmetric] e_def [symmetric] Let_def)
        qed
      qed
    qed
  qed
qed


lemma seed_accum_exact:
  assumes base: "1 \<le> base" "base \<le> 36"
    and ovf: "uint ovf = (2 ^ 64 - 1) div base + 1"
  shows "(case Parse_Integer_seed base ptr of None \<Rightarrow> None
          | Some (r, p) \<Rightarrow> Parse_Integer_accum base ovf r p) =
      (if digits_valid base (c_str ptr) \<and> digits_value base 0 (c_str ptr) < 2 ^ 64
       then Some (word_of_int (digits_value base 0 (c_str ptr))) else None)"
proof (induction ptr)
  case Nil
  show ?case by (simp add: digits_valid_def)
next
  case (Cons c ptr)
  show ?case
  proof (cases "c = NUL")
    case True
    then show ?thesis by (simp add: digits_valid_def)
  next
    case nz: False
    define d where "d = DigitValue c"
    have d0: "0 \<le> d" "d \<le> 36" using DigitValue_range by (simp_all add: d_def)
    consider "base \<le> d" | "d = 0" | "1 \<le> d" "d < base" using d0 by linarith
    then show ?thesis
    proof cases
      case 1
      then show ?thesis using nz by (simp add: d_def [symmetric] Let_def digits_valid_def)
    next
      case 2
      then show ?thesis using nz base Cons.IH
        by (simp add: d_def [symmetric] Let_def digits_valid_def)
    next
      case 3
      then have u: "uint (word_of_int d :: 64 word) = d"
        using d0 by (simp add: uint_word_of_int take_bit_int_eq_self)
      then have "1 \<le> uint (word_of_int d :: 64 word)" using 3 by simp
      note accum_exact [OF base ovf this, of ptr]
      then show ?thesis using nz 3 u
        by (simp add: d_def [symmetric] Let_def digits_valid_def)
    qed
  qed
qed

lemma prefix_cases:
  "Parse_Integer_prefix text = (base, ovf, ptr) \<Longrightarrow>
     1 \<le> base \<and> base \<le> 36 \<and> uint ovf = (2 ^ 64 - 1) div base + 1"
  by (auto simp: Parse_Integer_prefix_def UINT64_MAX_def split: if_splits)

lemma digits_value_nonneg: "1 \<le> base \<Longrightarrow> 0 \<le> digits_value base 0 ds"
  using digits_value_mono [of base 0 ds] by simp

lemma upb_Parse_Integer_general:
  assumes "Parse_Integer_prefix text = (base, ovf, ptr)"
  shows "upb_Parse_Integer text max_value =
    (if digits_valid base (c_str ptr) \<and> digits_value base 0 (c_str ptr) < 2 ^ 64 \<and>
        digits_value base 0 (c_str ptr) \<le> uint max_value
     then Some (word_of_int (digits_value base 0 (c_str ptr))) else None)"
proof -
  have b: "1 \<le> base" "base \<le> 36" and o: "uint ovf = (2 ^ 64 - 1) div base + 1"
    using prefix_cases [OF assms] by simp_all
  have v0: "0 \<le> digits_value base 0 (c_str ptr)"
    using b by (intro digits_value_nonneg)
  show ?thesis
    using seed_accum_exact [OF b o, of ptr] v0
    by (auto simp: upb_Parse_Integer_def assms word_less_def uint_word_of_int take_bit_int_eq_self
        split: option.splits if_splits)
qed

lemma digits_valid_decimal: "digits_valid 10 ds \<longleftrightarrow> (\<forall>c \<in> set ds. Digit c)"
  by (simp add: digits_valid_def Digit_iff)

lemma digits_valid_octal: "digits_valid 8 ds \<longleftrightarrow> (\<forall>c \<in> set ds. OctalDigit c)"
  by (simp add: digits_valid_def OctalDigit_iff)

lemma digits_valid_hex: "digits_valid 16 ds \<longleftrightarrow> (\<forall>c \<in> set ds. HexDigit c)"
  by (simp add: digits_valid_def HexDigit_iff)

lemma Parse_Integer_prefix_base:
  "fst (Parse_Integer_prefix text) =
     (if c_at text 0 = CHR ''0'' \<and> (c_at text 1 = CHR ''x'' \<or> c_at text 1 = CHR ''X'') then 16
      else if c_at text 0 = CHR ''0'' then 8 else 10)"
  by (simp add: Parse_Integer_prefix_def)

lemma Parse_Integer_max_decimal:
  "upb_Parse_Integer ''18446744073709551615'' UINT64_MAX = Some 0xFFFFFFFFFFFFFFFF"
  by code_simp

lemma Parse_Integer_overflow_decimal:
  "upb_Parse_Integer ''18446744073709551616'' UINT64_MAX = None"
  by code_simp

lemma Parse_Integer_max_hex:
  "upb_Parse_Integer ''0xFFFFFFFFFFFFFFFF'' UINT64_MAX = Some 0xFFFFFFFFFFFFFFFF"
  by code_simp

text \<open>
  Claim C1. \<open>upb_Parse_Integer\<close> returns true, with the exact numeric value of the
  digit string in the inferred base as output, if and only if every digit is valid for
  that base, the value fits in 64 bits and the value is at most \<open>max_value\<close>; in every
  other case it returns false. The base is 16 after a \<open>0x\<close> or \<open>0X\<close> prefix, 8 after a
  leading \<open>0\<close>, and 10 otherwise. The two overflow checks of the loop detect exactly the
  values that do not fit. In particular \<open>18446744073709551615\<close> parses to \<open>2^64 - 1\<close>,
  \<open>18446744073709551616\<close> is refused and \<open>0xFFFFFFFFFFFFFFFF\<close> parses to \<open>2^64 - 1\<close>.
\<close>

theorem upb_Parse_Integer_exact:
  "(case Parse_Integer_prefix text of (base, overflow_if_mul_base, ptr) \<Rightarrow>
      upb_Parse_Integer text max_value =
        (if digits_valid base (c_str ptr) \<and> digits_value base 0 (c_str ptr) < 2 ^ 64 \<and>
            digits_value base 0 (c_str ptr) \<le> uint max_value
         then Some (word_of_int (digits_value base 0 (c_str ptr))) else None)) \<and>
   upb_Parse_Integer ''18446744073709551615'' UINT64_MAX = Some (word_of_int (2 ^ 64 - 1)) \<and>
   upb_Parse_Integer ''18446744073709551616'' UINT64_MAX = None \<and>
   upb_Parse_Integer ''0xFFFFFFFFFFFFFFFF'' UINT64_MAX = Some (word_of_int (2 ^ 64 - 1))"
proof -
  obtain base ovf ptr where p: "Parse_Integer_prefix text = (base, ovf, ptr)"
    by (cases "Parse_Integer_prefix text") auto
  have "upb_Parse_Integer text max_value =
        (if digits_valid base (c_str ptr) \<and> digits_value base 0 (c_str ptr) < 2 ^ 64 \<and>
            digits_value base 0 (c_str ptr) \<le> uint max_value
         then Some (word_of_int (digits_value base 0 (c_str ptr))) else None)"
    by (rule upb_Parse_Integer_general [OF p])
  then show ?thesis
    using Parse_Integer_max_decimal Parse_Integer_overflow_decimal Parse_Integer_max_hex
    by (simp add: p)
qed

theorem upb_Parse_Integer_exact_witness:
  "digits_valid 16 (c_str ''1f'') \<and> \<not> digits_valid 8 (c_str ''09'') \<and>
   upb_Parse_Integer ''0x1f'' 31 = Some 31 \<and> upb_Parse_Integer ''0x1f'' 30 = None \<and>
   upb_Parse_Integer ''009'' 31 = None"
  using upb_Parse_Integer_exact [of "''0x1f''" 31] upb_Parse_Integer_exact [of "''0x1f''" 30]
    upb_Parse_Integer_exact [of "''009''" 31]
  by (simp add: Parse_Integer_prefix_def c_at_def digits_valid_def digits_value_def
      DigitValue_def kAsciiToInt_def UINT64_MAX_def)

section \<open>Properties of \<open>upb_Parse_StringAppend\<close>\<close>

lemma ReadHexDigits_loop_ok:
  "NUL \<notin> set hs \<Longrightarrow>
   ReadHexDigits_loop (hs @ rest) (length hs) r =
     (True, foldl (\<lambda>r c. push_bit 4 r + word_of_int (DigitValue c)) r hs)"
  by (induction hs arbitrary: r) auto

lemma fold_hex_word:
  "foldl (\<lambda>r c. push_bit 4 r + word_of_int (DigitValue c)) (word_of_nat a :: 32 word) hs =
   word_of_nat (foldl (\<lambda>a c. a * 16 + nat (DigitValue c)) a hs)"
proof (induction hs arbitrary: a)
  case Nil
  show ?case by simp
next
  case (Cons c hs)
  have "0 \<le> DigitValue c" using DigitValue_range by simp
  then have "(push_bit 4 (word_of_nat a) + word_of_int (DigitValue c) :: 32 word) =
    word_of_nat (a * 16 + nat (DigitValue c))"
    by (simp add: push_bit_eq_mult)
  then show ?case using Cons.IH [of "a * 16 + nat (DigitValue c)"] by simp
qed

lemma HexDigit_not_NUL: "HexDigit c \<Longrightarrow> c \<noteq> NUL"
  by (auto simp: HexDigit_def)

lemma ReadHexDigits_4:
  assumes "length hs = 4" "\<forall>c \<in> set hs. HexDigit c"
  shows "ReadHexDigits (hs @ rest) 4 = (True, word_of_nat (hex_value hs))"
proof -
  have "NUL \<notin> set hs" using assms(2) HexDigit_not_NUL by blast
  from ReadHexDigits_loop_ok [OF this, of rest 0] fold_hex_word [of 0 hs] assms(1)
  show ?thesis by (simp add: ReadHexDigits_def hex_value_def)
qed

lemma AssembleUTF16_arith:
  assumes "0xD800 \<le> hi" "hi \<le> 0xDBFF" "0xDC00 \<le> lo" "lo \<le> 0xDFFF"
  shows "AssembleUTF16 (word_of_nat hi) (word_of_nat lo) =
     word_of_nat (0x10000 + (hi - 0xD800) * 1024 + (lo - 0xDC00))"
proof -
  define h where "h = hi - 0xD800"
  define l where "l = lo - 0xDC00"
  have hl: "h < 1024" "l < 1024" "hi = h + 0xD800" "lo = l + 0xDC00"
    using assms by (simp_all add: h_def l_def)
  have l_take: "(word_of_nat l :: 32 word) = take_bit 10 (word_of_nat l)"
    using hl(2) by (simp add: take_bit_nat_eq_self flip: of_nat_take_bit)
  have "push_bit 10 (word_of_nat h :: 32 word) AND word_of_nat l = 0"
    by (subst l_take) (auto simp: bit_eq_iff bit_simps)
  then have "push_bit 10 (word_of_nat h :: 32 word) OR word_of_nat l =
      push_bit 10 (word_of_nat h) + word_of_nat l"
    by (simp add: disjunctive_add_eq_or)
  then show ?thesis
    by (simp add: AssembleUTF16_def kMinHeadSurrogate_def kMinTrailSurrogate_def hl
        h_def [symmetric] l_def [symmetric] push_bit_eq_mult)
qed

lemma IsHeadSurrogate_nat:
  "n < 2 ^ 32 \<Longrightarrow> IsHeadSurrogate (word_of_nat n) \<longleftrightarrow> 0xD800 \<le> n \<and> n \<le> 0xDBFF"
  by (auto simp: IsHeadSurrogate_def kMinHeadSurrogate_def kMaxHeadSurrogate_def
      word_le_nat_alt word_less_nat_alt unat_of_nat take_bit_nat_eq_self)

lemma IsTrailSurrogate_nat:
  "n < 2 ^ 32 \<Longrightarrow> IsTrailSurrogate (word_of_nat n) \<longleftrightarrow> 0xDC00 \<le> n \<and> n \<le> 0xDFFF"
  by (auto simp: IsTrailSurrogate_def kMinTrailSurrogate_def kMaxTrailSurrogate_def
      word_le_nat_alt word_less_nat_alt unat_of_nat take_bit_nat_eq_self)

lemma FetchUnicodePoint_pair:
  assumes "length hs = 4" "\<forall>c \<in> set hs. HexDigit c" "length ls = 4" "\<forall>c \<in> set ls. HexDigit c"
    and "0xD800 \<le> hex_value hs" "hex_value hs \<le> 0xDBFF"
    and "0xDC00 \<le> hex_value ls" "hex_value ls \<le> 0xDFFF"
  shows "FetchUnicodePoint (CHR ''u'' # hs @ CHR 0x5C # CHR ''u'' # ls @ rest) =
    (rest, word_of_nat (0x10000 + (hex_value hs - 0xD800) * 1024 + (hex_value ls - 0xDC00)))"
proof -
  have r1: "ReadHexDigits (hs @ CHR 0x5C # CHR ''u'' # ls @ rest) 4 = (True, word_of_nat (hex_value hs))"
    using assms(1,2) by (rule ReadHexDigits_4)
  have r2: "ReadHexDigits (ls @ rest) 4 = (True, word_of_nat (hex_value ls))"
    using assms(3,4) by (rule ReadHexDigits_4)
  have h: "IsHeadSurrogate (word_of_nat (hex_value hs))"
    using assms(5,6) by (subst IsHeadSurrogate_nat) auto
  have t: "IsTrailSurrogate (word_of_nat (hex_value ls))"
    using assms(7,8) by (subst IsTrailSurrogate_nat) auto
  show ?thesis
    using r1 r2 h t assms(1,3) AssembleUTF16_arith [OF assms(5-8)]
    by (simp add: FetchUnicodePoint_def UnicodeLength_def Let_def)
qed


lemma StringAppend_pair:
  assumes "length hs = 4" "\<forall>c \<in> set hs. HexDigit c" "length ls = 4" "\<forall>c \<in> set ls. HexDigit c"
    and "0xD800 \<le> hex_value hs" "hex_value hs \<le> 0xDBFF"
    and "0xDC00 \<le> hex_value ls" "hex_value ls \<le> 0xDFFF"
  shows "StringAppend_loop quote (CHR 0x5C # CHR ''u'' # hs @ CHR 0x5C # CHR ''u'' # ls @ rest) out =
    StringAppend_loop quote rest
      (AppendUTF8 (word_of_nat (0x10000 + (hex_value hs - 0xD800) * 1024 + (hex_value ls - 0xDC00))) out)"
proof -
  have ne: "rest \<noteq> CHR ''u'' # hs @ CHR 0x5C # CHR ''u'' # ls @ rest"
  proof
    assume "rest = CHR ''u'' # hs @ CHR 0x5C # CHR ''u'' # ls @ rest"
    then have "length rest = length (CHR ''u'' # hs @ CHR 0x5C # CHR ''u'' # ls @ rest)"
      by (rule arg_cong)
    then show False by simp
  qed
  show ?thesis
    by (subst StringAppend_loop.simps)
      (simp add: FetchUnicodePoint_pair [OF assms] ne OctalDigit_def)
qed

lemma ReadHexDigits_loop_NUL:
  "\<exists>i < n. c_at ptr i = NUL \<Longrightarrow> fst (ReadHexDigits_loop ptr n r) = False"
proof (induction n arbitrary: ptr r)
  case 0
  then show ?case by simp
next
  case (Suc n)
  show ?case
  proof (cases "c_at ptr 0 = NUL")
    case True
    then show ?thesis by simp
  next
    case False
    then obtain c cs where p: "ptr = c # cs" by (cases ptr) auto
    from Suc.prems obtain i where i: "i < Suc n" "c_at ptr i = NUL" by blast
    with False obtain j where "i = Suc j" by (cases i) auto
    with i p have "\<exists>j < n. c_at cs j = NUL" by auto
    from Suc.IH [OF this] False p show ?thesis by simp
  qed
qed

lemma ReadHexDigits_loop_window:
  "\<forall>i < n. c_at ptr i \<noteq> NUL \<Longrightarrow>
   ReadHexDigits_loop ptr n r =
     (True, foldl (\<lambda>r c. push_bit 4 r + word_of_int (DigitValue c)) r (take n ptr))"
proof (induction n arbitrary: ptr r)
  case 0
  then show ?case by simp
next
  case (Suc n)
  from Suc.prems have "c_at ptr 0 \<noteq> NUL" by blast
  then obtain c cs where p: "ptr = c # cs" by (cases ptr) auto
  from Suc.prems p have "\<forall>i < n. c_at cs i \<noteq> NUL" by auto
  from Suc.IH [OF this] p \<open>c_at ptr 0 \<noteq> NUL\<close> show ?case by simp
qed

lemma FetchUnicodePoint_unchanged_iff:
  assumes "key = CHR ''u'' \<or> key = CHR ''U''"
  shows "fst (FetchUnicodePoint (key # rest)) = key # rest \<longleftrightarrow>
         (\<exists>i < UnicodeLength key. c_at rest i = NUL)"
proof (cases "\<exists>i < UnicodeLength key. c_at rest i = NUL")
  case True
  then have "fst (ReadHexDigits_loop rest (UnicodeLength key) 0) = False"
    by (rule ReadHexDigits_loop_NUL)
  then show ?thesis using True
    by (auto simp: FetchUnicodePoint_def ReadHexDigits_def Let_def split: prod.splits)
next
  case False
  then have w: "\<forall>i < UnicodeLength key. c_at rest i \<noteq> NUL" by blast
  have len: "0 < UnicodeLength key" using assms by (auto simp: UnicodeLength_def)
  have "fst (FetchUnicodePoint (key # rest)) \<noteq> key # rest"
  proof
    assume eq: "fst (FetchUnicodePoint (key # rest)) = key # rest"
    have "length (fst (FetchUnicodePoint (key # rest))) \<le> length rest"
      using len by (auto simp: FetchUnicodePoint_def ReadHexDigits_def Let_def
          ReadHexDigits_loop_window [OF w] split: prod.splits)
    with eq show False by simp
  qed
  then show ?thesis using False by simp
qed

lemma AppendUTF8_append: "AppendUTF8 cp out = out @ AppendUTF8 cp []"
  by (simp add: AppendUTF8_def)

lemma StringAppend_loop_step:
  assumes nz: "c_at ptr 0 \<noteq> NUL"
  shows "\<exists>X ys. length X < length ptr \<and>
          (\<forall>o1. StringAppend_loop quote ptr o1 = StringAppend_loop quote X (o1 @ ys))"
proof -
  from nz obtain c cs where p: "ptr = c # cs" by (cases ptr) auto
  note unf = StringAppend_loop.simps [of quote ptr]
  consider
      (octal) "c = CHR 0x5C" "c_at cs 0 \<noteq> NUL" "OctalDigit (c_at cs 0)"
    | (hex) "c = CHR 0x5C" "c_at cs 0 \<noteq> NUL" "\<not> OctalDigit (c_at cs 0)" "c_at cs 0 = CHR ''x''"
    | (ufail) "c = CHR 0x5C" "c_at cs 0 \<noteq> NUL" "\<not> OctalDigit (c_at cs 0)" "c_at cs 0 \<noteq> CHR ''x''"
        "c_at cs 0 = CHR ''u'' \<or> c_at cs 0 = CHR ''U''" "fst (FetchUnicodePoint cs) = cs"
    | (uok) "c = CHR 0x5C" "c_at cs 0 \<noteq> NUL" "\<not> OctalDigit (c_at cs 0)" "c_at cs 0 \<noteq> CHR ''x''"
        "c_at cs 0 = CHR ''u'' \<or> c_at cs 0 = CHR ''U''" "fst (FetchUnicodePoint cs) \<noteq> cs"
    | (other) "c = CHR 0x5C" "c_at cs 0 \<noteq> NUL" "\<not> OctalDigit (c_at cs 0)" "c_at cs 0 \<noteq> CHR ''x''"
        "\<not> (c_at cs 0 = CHR ''u'' \<or> c_at cs 0 = CHR ''U'')"
    | (quote) "\<not> (c = CHR 0x5C \<and> c_at cs 0 \<noteq> NUL)" "c = quote \<and> c_at cs 0 = NUL"
    | (plain) "\<not> (c = CHR 0x5C \<and> c_at cs 0 \<noteq> NUL)" "\<not> (c = quote \<and> c_at cs 0 = NUL)"
    by blast
  then show ?thesis
  proof cases
    case octal
    have "length (drop 1 (fst (octal_escape cs))) < length ptr"
      using octal_escape_shorter [of cs] by (simp add: p)
    moreover have "\<And>o1. StringAppend_loop quote ptr o1 =
        StringAppend_loop quote (drop 1 (fst (octal_escape cs))) (o1 @ [char_of (snd (octal_escape cs))])"
      using nz octal by (subst unf) (simp add: p)
    ultimately show ?thesis by blast
  next
    case hex
    have "length (drop 1 (fst (hex_escape cs))) < length ptr"
      using hex_escape_shorter [of cs] by (simp add: p)
    moreover have "\<And>o1. StringAppend_loop quote ptr o1 =
        StringAppend_loop quote (drop 1 (fst (hex_escape cs))) (o1 @ [char_of (snd (hex_escape cs))])"
      using nz hex by (subst unf) (simp add: p)
    ultimately show ?thesis by blast
  next
    case ufail
    have "length (drop 1 cs) < length ptr" by (simp add: p)
    moreover have "\<And>o1. StringAppend_loop quote ptr o1 =
        StringAppend_loop quote (drop 1 cs) (o1 @ [c_at cs 0])"
      using nz ufail by (subst unf) (simp add: p)
    ultimately show ?thesis by blast
  next
    case uok
    have "length (fst (FetchUnicodePoint cs)) < length ptr"
      using FetchUnicodePoint_shorter [OF uok(6)] by (simp add: p)
    moreover have "\<And>o1. StringAppend_loop quote ptr o1 =
        StringAppend_loop quote (fst (FetchUnicodePoint cs))
          (o1 @ AppendUTF8 (snd (FetchUnicodePoint cs)) [])"
      using nz uok by (subst unf) (simp add: p AppendUTF8_append [symmetric])
    ultimately show ?thesis by blast
  next
    case other
    have "length (drop 1 cs) < length ptr" by (simp add: p)
    moreover have "\<And>o1. StringAppend_loop quote ptr o1 =
        StringAppend_loop quote (drop 1 cs) (o1 @ [TranslateEscape (c_at cs 0)])"
      using nz other by (subst unf) (simp add: p)
    ultimately show ?thesis by blast
  next
    case quote
    have "length cs < length ptr" by (simp add: p)
    moreover have "\<And>o1. StringAppend_loop quote ptr o1 = StringAppend_loop quote cs (o1 @ [])"
      using nz quote by (subst unf) (auto simp: p)
    ultimately show ?thesis by blast
  next
    case plain
    have "length cs < length ptr" by (simp add: p)
    moreover have "\<And>o1. StringAppend_loop quote ptr o1 = StringAppend_loop quote cs (o1 @ [c])"
      using nz plain by (subst unf) (auto simp: p)
    ultimately show ?thesis by blast
  qed
qed

lemma StringAppend_loop_append:
  "StringAppend_loop quote ptr out = out @ StringAppend_loop quote ptr []"
proof (induction "length ptr" arbitrary: ptr out rule: less_induct)
  case less
  show ?case
  proof (cases "c_at ptr 0 = NUL")
    case True
    then show ?thesis by (simp add: StringAppend_loop.simps [of quote ptr])
  next
    case False
    from StringAppend_loop_step [OF False, of quote]
    obtain X ys where X: "length X < length ptr"
      and st: "\<And>o1. StringAppend_loop quote ptr o1 = StringAppend_loop quote X (o1 @ ys)"
      by blast
    have "StringAppend_loop quote ptr out = StringAppend_loop quote X (out @ ys)"
      by (rule st)
    also have "\<dots> = (out @ ys) @ StringAppend_loop quote X []"
      by (rule less [OF X])
    also have "\<dots> = out @ StringAppend_loop quote X ([] @ ys)"
      using less [OF X, of ys] by simp
    also have "\<dots> = out @ StringAppend_loop quote ptr []"
      by (simp only: st [symmetric])
    finally show ?thesis .
  qed
qed

lemma mask_0xFF: "(0xFF :: 32 word) = mask 8" by (simp add: mask_eq_exp_minus_1)
lemma mask_0xFF00: "(0xFF00 :: 32 word) = push_bit 8 (mask 8)" by (simp add: push_bit_eq_mult mask_eq_exp_minus_1)
lemma mask_0xFF0000: "(0xFF0000 :: 32 word) = push_bit 16 (mask 8)" by (simp add: push_bit_eq_mult mask_eq_exp_minus_1)
lemma mask_0xFF000000: "(0xFF000000 :: 32 word) = push_bit 24 (mask 8)" by (simp add: push_bit_eq_mult mask_eq_exp_minus_1)

lemma char_of_unat_eqI:
  assumes "take_bit 8 (a :: 32 word) = take_bit 8 b"
  shows "char_of (unat a) = char_of (unat b)"
proof -
  have "char_of (unat a) = char_of (take_bit 8 (unat a))"
    by (simp add: char_of_take_bit_eq)
  also have "\<dots> = char_of (unat (take_bit 8 a))"
    by (simp only: unsigned_take_bit_eq)
  also have "\<dots> = char_of (unat (take_bit 8 b))"
    by (simp only: assms)
  also have "\<dots> = char_of (take_bit 8 (unat b))"
    by (simp only: unsigned_take_bit_eq)
  also have "\<dots> = char_of (unat b)"
    by (simp add: char_of_take_bit_eq)
  finally show ?thesis .
qed

lemma ghtonl_bytes:
  "uint32_bytes (ghtonl x) =
     [char_of (unat (drop_bit 24 x)), char_of (unat (drop_bit 16 x)),
      char_of (unat (drop_bit 8 x)), char_of (unat x)]"
proof -
  have 1: "take_bit 8 (ghtonl x AND 0xFF) = take_bit 8 (drop_bit 24 x)"
    unfolding ghtonl_def mask_0xFF mask_0xFF00 mask_0xFF0000 mask_0xFF000000
    by (rule bit_word_eqI) (auto simp: bit_simps)
  have 2: "take_bit 8 (drop_bit 8 (ghtonl x) AND 0xFF) = take_bit 8 (drop_bit 16 x)"
    unfolding ghtonl_def mask_0xFF mask_0xFF00 mask_0xFF0000 mask_0xFF000000
    by (rule bit_word_eqI) (auto simp: bit_simps)
  have 3: "take_bit 8 (drop_bit 16 (ghtonl x) AND 0xFF) = take_bit 8 (drop_bit 8 x)"
    unfolding ghtonl_def mask_0xFF mask_0xFF00 mask_0xFF0000 mask_0xFF000000
    by (rule bit_word_eqI) (auto simp: bit_simps)
  have 4: "take_bit 8 (drop_bit 24 (ghtonl x) AND 0xFF) = take_bit 8 x"
    unfolding ghtonl_def mask_0xFF mask_0xFF00 mask_0xFF0000 mask_0xFF000000
    by (rule bit_word_eqI) (auto simp: bit_simps)
  show ?thesis
    unfolding uint32_bytes_def
    by (simp only: char_of_unat_eqI [OF 1] char_of_unat_eqI [OF 2]
        char_of_unat_eqI [OF 3] char_of_unat_eqI [OF 4])
qed

lemma utf8_const_1: "(0xf0808080 :: 32 word) =
    push_bit 28 (mask 4) OR push_bit 23 1 OR push_bit 15 1 OR push_bit 7 1"
  by (simp add: push_bit_eq_mult mask_eq_exp_minus_1)
lemma utf8_const_2: "(0x1c0000 :: 32 word) = push_bit 18 (mask 3)"
  by (simp add: push_bit_eq_mult mask_eq_exp_minus_1)
lemma utf8_const_3: "(0x03f000 :: 32 word) = push_bit 12 (mask 6)"
  by (simp add: push_bit_eq_mult mask_eq_exp_minus_1)
lemma utf8_const_4: "(0x000fc0 :: 32 word) = push_bit 6 (mask 6)"
  by (simp add: push_bit_eq_mult mask_eq_exp_minus_1)
lemma utf8_const_5: "(0x003f :: 32 word) = mask 6"
  by (simp add: push_bit_eq_mult mask_eq_exp_minus_1)
lemma utf8_const_6: "(0xF0 :: 32 word) = push_bit 4 (mask 4)"
  by (simp add: push_bit_eq_mult mask_eq_exp_minus_1)
lemma utf8_const_7: "(0x80 :: 32 word) = push_bit 7 1"
  by (simp add: push_bit_eq_mult mask_eq_exp_minus_1)

lemmas utf8_consts = utf8_const_1 utf8_const_2 utf8_const_3 utf8_const_4 utf8_const_5
  utf8_const_6 utf8_const_7

lemma four_byte_0:
  assumes "cp = take_bit 21 (cp :: 32 word)"
  shows "take_bit 8 (drop_bit 24 (0xf0808080 OR push_bit 6 (cp AND 0x1c0000) OR
           push_bit 4 (cp AND 0x03f000) OR push_bit 2 (cp AND 0x000fc0) OR
           (cp AND 0x003f))) = take_bit 8 (0xF0 OR drop_bit 18 cp)"
  apply (subst (1 2 3 4 5) assms)
  unfolding utf8_consts
  apply (rule bit_word_eqI)
  apply (auto simp: bit_simps)
  done

lemma four_byte_1:
  assumes "cp = take_bit 21 (cp :: 32 word)"
  shows "take_bit 8 (drop_bit 16 (0xf0808080 OR push_bit 6 (cp AND 0x1c0000) OR
           push_bit 4 (cp AND 0x03f000) OR push_bit 2 (cp AND 0x000fc0) OR
           (cp AND 0x003f))) = take_bit 8 (0x80 OR (drop_bit 12 cp AND 0x3F))"
  apply (subst (1 2 3 4 5) assms)
  unfolding utf8_consts
  apply (rule bit_word_eqI)
  apply (auto simp: bit_simps)
  done

lemma four_byte_2:
  assumes "cp = take_bit 21 (cp :: 32 word)"
  shows "take_bit 8 (drop_bit 8 (0xf0808080 OR push_bit 6 (cp AND 0x1c0000) OR
           push_bit 4 (cp AND 0x03f000) OR push_bit 2 (cp AND 0x000fc0) OR
           (cp AND 0x003f))) = take_bit 8 (0x80 OR (drop_bit 6 cp AND 0x3F))"
  apply (subst (1 2 3 4 5) assms)
  unfolding utf8_consts
  apply (rule bit_word_eqI)
  apply (auto simp: bit_simps)
  done

lemma four_byte_3:
  assumes "cp = take_bit 21 (cp :: 32 word)"
  shows "take_bit 8 (0xf0808080 OR push_bit 6 (cp AND 0x1c0000) OR
           push_bit 4 (cp AND 0x03f000) OR push_bit 2 (cp AND 0x000fc0) OR
           (cp AND 0x003f)) = take_bit 8 (0x80 OR (cp AND 0x3F))"
  apply (subst (1 2 3 4 5) assms)
  unfolding utf8_consts
  apply (rule bit_word_eqI)
  apply (auto simp: bit_simps)
  done

lemma AppendUTF8_four_bytes:
  assumes lo: "0xFFFF < cp" and hi: "cp \<le> 0x10FFFF"
  shows "AppendUTF8 cp out = out @ utf8_four_bytes cp"
proof -
  have "unat cp < 2 ^ 21" using hi by (simp add: word_le_nat_alt)
  then have "cp < 2 ^ 21" by (simp add: word_less_nat_alt)
  then have "cp AND mask 21 = cp" by (rule less_mask_eq)
  then have t: "cp = take_bit 21 cp" by (simp only: take_bit_eq_mask)
  have n1: "\<not> cp \<le> 0x7f" and n2: "\<not> cp \<le> 0x07ff" and n3: "\<not> cp \<le> 0xffff"
    using lo by (simp_all add: word_le_nat_alt word_less_nat_alt)
  show ?thesis
    unfolding AppendUTF8_def utf8_four_bytes_def
    by (simp only: n1 n2 n3 hi if_True if_False ghtonl_bytes diff_self_eq_0 drop_0
        char_of_unat_eqI [OF four_byte_0 [OF t]] char_of_unat_eqI [OF four_byte_1 [OF t]]
        char_of_unat_eqI [OF four_byte_2 [OF t]] char_of_unat_eqI [OF four_byte_3 [OF t]])
qed

lemma upb_Parse_StringAppend_append:
  "upb_Parse_StringAppend text out = map_option (\<lambda>r. out @ r) (upb_Parse_StringAppend text [])"
  using StringAppend_loop_append [of "c_at text 0" "drop 1 text" out]
  by (simp add: upb_Parse_StringAppend_def Let_def)

lemma unpaired_surrogate_fetch:
  "FetchUnicodePoint (''uD83Dzz'' @ [CHR 0x22]) = (''zz'' @ [CHR 0x22], 0xD83D)"
  by code_simp

lemma unpaired_surrogate_output:
  "upb_Parse_StringAppend ([CHR 0x22, CHR 0x5C] @ ''uD83Dzz'' @ [CHR 0x22]) [] =
   Some [CHR 0xED, CHR 0xA0, CHR 0xBD, CHR ''z'', CHR ''z'']"
  by code_simp

lemma surrogate_pair_output:
  "upb_Parse_StringAppend
     ([CHR 0x22, CHR 0x5C] @ ''uD83D'' @ [CHR 0x5C] @ ''uDE00'' @ [CHR 0x22]) [] =
   Some [CHR 0xF0, CHR 0x9F, CHR 0x98, CHR 0x80]"
  by code_simp

lemma garbage_digits_fetch: "FetchUnicodePoint ''uzzzz'' = ([], 0x25553)"
  by code_simp

lemma garbage_digits_output:
  "upb_Parse_StringAppend ([CHR 0x22, CHR 0x5C] @ ''uzzzz'' @ [CHR 0x22]) [] =
   Some [CHR 0xF0, CHR 0xA5, CHR 0x95, CHR 0x93]"
  by code_simp

lemma short_escape_output:
  "upb_Parse_StringAppend ([CHR 0x22, CHR 0x5C] @ ''u12'' @ [CHR 0x22]) [] = Some ''u12''"
  by code_simp

text \<open>
  Claim C2, as the source has it. On the string token text \<open>"\uD83Dzz"\<close> the \<open>\u\<close>
  escape does not take the failure fallback: \<open>FetchUnicodePoint\<close> reads the four digits
  as the code point \<open>0xD83D\<close>, finds no \<open>\u\<close> trail surrogate after it, and returns the
  pointer past the digits. The bytes appended to the output are the three-byte UTF-8 form
  \<open>ED A0 BD\<close> of that lone surrogate, followed by \<open>zz\<close>; the closing quote is dropped
  and the call returns.
\<close>

theorem StringAppend_unpaired_surrogate:
  "FetchUnicodePoint (''uD83Dzz'' @ [CHR 0x22]) = (''zz'' @ [CHR 0x22], 0xD83D) \<and>
   upb_Parse_StringAppend ([CHR 0x22, CHR 0x5C] @ ''uD83Dzz'' @ [CHR 0x22]) out =
     Some (out @ [CHR 0xED, CHR 0xA0, CHR 0xBD, CHR ''z'', CHR ''z''])"
  using unpaired_surrogate_fetch unpaired_surrogate_output
    upb_Parse_StringAppend_append [of "[CHR 0x22, CHR 0x5C] @ ''uD83Dzz'' @ [CHR 0x22]" out]
  by simp

text \<open>
  The claim as the specification states it fails: the output is not the literal \<open>u\<close>
  followed by \<open>D83Dzz\<close>, and \<open>FetchUnicodePoint\<close> does not return its input pointer.
\<close>

theorem StringAppend_unpaired_surrogate_counterexample:
  "upb_Parse_StringAppend ([CHR 0x22, CHR 0x5C] @ ''uD83Dzz'' @ [CHR 0x22]) [] \<noteq>
     Some ''uD83Dzz'' \<and>
   fst (FetchUnicodePoint (''uD83Dzz'' @ [CHR 0x22])) \<noteq> ''uD83Dzz'' @ [CHR 0x22]"
  using unpaired_surrogate_fetch unpaired_surrogate_output by simp

text \<open>
  Claim C3. A \<open>\u\<close> escape whose four hex digits \<open>hs\<close> form a high surrogate
  (\<open>0xD800..0xDBFF\<close>), immediately followed by a \<open>\u\<close> escape whose four hex digits
  \<open>ls\<close> form a low surrogate (\<open>0xDC00..0xDFFF\<close>), is decoded by the loop of
  \<open>upb_Parse_StringAppend\<close> as the single code point
  \<open>0x10000 + ((hi - 0xD800) << 10) + (lo - 0xDC00)\<close>: its four-byte UTF-8 encoding is
  appended and the loop goes on after the second escape. In particular
  the text \<open>"\uD83D\uDE00"\<close> appends exactly the bytes \<open>F0 9F 98 80\<close>.
\<close>

theorem StringAppend_surrogate_pair:
  assumes "length hs = 4" "\<forall>c \<in> set hs. HexDigit c"
    and "length ls = 4" "\<forall>c \<in> set ls. HexDigit c"
    and "0xD800 \<le> hex_value hs" "hex_value hs \<le> 0xDBFF"
    and "0xDC00 \<le> hex_value ls" "hex_value ls \<le> 0xDFFF"
  shows "StringAppend_loop quote
           (CHR 0x5C # CHR ''u'' # hs @ CHR 0x5C # CHR ''u'' # ls @ rest) out =
         StringAppend_loop quote rest
           (out @ utf8_four_bytes (word_of_nat
              (0x10000 + (hex_value hs - 0xD800) * 2 ^ 10 + (hex_value ls - 0xDC00)))) \<and>
         upb_Parse_StringAppend
           ([CHR 0x22, CHR 0x5C] @ ''uD83D'' @ [CHR 0x5C] @ ''uDE00'' @ [CHR 0x22]) out =
         Some (out @ [CHR 0xF0, CHR 0x9F, CHR 0x98, CHR 0x80])"
proof -
  define n where "n = 0x10000 + (hex_value hs - 0xD800) * 1024 + (hex_value ls - 0xDC00)"
  have nb: "0x10000 \<le> n" "n \<le> 0x10FFFF"
    using assms(5-8) by (simp_all add: n_def)
  then have u: "unat (word_of_nat n :: 32 word) = n"
    by (simp add: unat_of_nat take_bit_nat_eq_self)
  have "0xFFFF < (word_of_nat n :: 32 word)" "(word_of_nat n :: 32 word) \<le> 0x10FFFF"
    using nb u by (simp_all add: word_le_nat_alt word_less_nat_alt)
  then have "AppendUTF8 (word_of_nat n) out = out @ utf8_four_bytes (word_of_nat n)"
    by (rule AppendUTF8_four_bytes)
  then have 1: "StringAppend_loop quote
           (CHR 0x5C # CHR ''u'' # hs @ CHR 0x5C # CHR ''u'' # ls @ rest) out =
         StringAppend_loop quote rest (out @ utf8_four_bytes (word_of_nat n))"
    using StringAppend_pair [OF assms, of quote rest out] by (simp add: n_def)
  have 2: "upb_Parse_StringAppend
           ([CHR 0x22, CHR 0x5C] @ ''uD83D'' @ [CHR 0x5C] @ ''uDE00'' @ [CHR 0x22]) out =
         Some (out @ [CHR 0xF0, CHR 0x9F, CHR 0x98, CHR 0x80])"
    using surrogate_pair_output
      upb_Parse_StringAppend_append
        [of "[CHR 0x22, CHR 0x5C] @ ''uD83D'' @ [CHR 0x5C] @ ''uDE00'' @ [CHR 0x22]" out]
    by simp
  from 1 2 show ?thesis by (simp add: n_def)
qed

lemma utf8_four_bytes_1F600: "utf8_four_bytes 0x1F600 = [CHR 0xF0, CHR 0x9F, CHR 0x98, CHR 0x80]"
  by code_simp

lemma StringAppend_loop_closing_quote: "StringAppend_loop quote [quote] out = out"
  by (subst StringAppend_loop.simps, simp, subst StringAppend_loop.simps, simp)

lemma hex_value_D83D: "hex_value ''D83D'' = 0xD83D"
  by (simp add: hex_value_def DigitValue_def kAsciiToInt_def)

lemma hex_value_DE00: "hex_value ''DE00'' = 0xDE00"
  by (simp add: hex_value_def DigitValue_def kAsciiToInt_def)

lemma code_point_1F600:
  "0x10000 + (0xD83D - 0xD800) * 2 ^ 10 + (0xDE00 - 0xDC00) = (0x1F600::nat)"
  by simp

theorem StringAppend_surrogate_pair_witness:
  "length ''D83D'' = 4 \<and> list_all HexDigit ''D83D'' \<and>
   length ''DE00'' = 4 \<and> list_all HexDigit ''DE00'' \<and>
   0xD800 \<le> hex_value ''D83D'' \<and> hex_value ''D83D'' \<le> 0xDBFF \<and>
   0xDC00 \<le> hex_value ''DE00'' \<and> hex_value ''DE00'' \<le> 0xDFFF \<and>
   StringAppend_loop (CHR 0x22)
     (CHR 0x5C # CHR ''u'' # ''D83D'' @ CHR 0x5C # CHR ''u'' # ''DE00'' @ [CHR 0x22]) [] =
   [CHR 0xF0, CHR 0x9F, CHR 0x98, CHR 0x80]"
proof -
  have h: "length ''D83D'' = 4" "\<forall>c \<in> set ''D83D''. HexDigit c"
    "length ''DE00'' = 4" "\<forall>c \<in> set ''DE00''. HexDigit c"
    by (simp_all add: HexDigit_def)
  have r: "0xD800 \<le> hex_value ''D83D''" "hex_value ''D83D'' \<le> 0xDBFF"
    "0xDC00 \<le> hex_value ''DE00''" "hex_value ''DE00'' \<le> 0xDFFF"
    by (simp_all add: hex_value_D83D hex_value_DE00)
  have "StringAppend_loop (CHR 0x22)
     (CHR 0x5C # CHR ''u'' # ''D83D'' @ CHR 0x5C # CHR ''u'' # ''DE00'' @ [CHR 0x22]) [] =
     StringAppend_loop (CHR 0x22) [CHR 0x22]
           ([] @ utf8_four_bytes (word_of_nat
              (0x10000 + (hex_value ''D83D'' - 0xD800) * 2 ^ 10 + (hex_value ''DE00'' - 0xDC00))))"
    using StringAppend_surrogate_pair [OF h r, of "CHR 0x22" "[CHR 0x22]" "[]"]
    by (rule conjunct1)
  also have "\<dots> = [] @ utf8_four_bytes (word_of_nat
              (0x10000 + (hex_value ''D83D'' - 0xD800) * 2 ^ 10 + (hex_value ''DE00'' - 0xDC00)))"
    by (rule StringAppend_loop_closing_quote)
  also have "\<dots> = utf8_four_bytes 0x1F600"
    by (simp only: hex_value_D83D hex_value_DE00 code_point_1F600 append_Nil of_nat_numeral)
  also have "\<dots> = [CHR 0xF0, CHR 0x9F, CHR 0x98, CHR 0x80]"
    by (rule utf8_four_bytes_1F600)
  finally show ?thesis using h r by (simp add: list_all_iff)
qed

lemma StringAppend_loop_ufail:
  assumes key: "key = CHR ''u'' \<or> key = CHR ''U''"
    and nul: "\<exists>i < UnicodeLength key. c_at rest i = NUL"
  shows "StringAppend_loop quote (CHR 0x5C # key # rest) out =
         StringAppend_loop quote rest (out @ [key])"
proof -
  have f: "fst (FetchUnicodePoint (key # rest)) = key # rest"
    using nul FetchUnicodePoint_unchanged_iff [OF key] by simp
  show ?thesis
    using key f by (subst StringAppend_loop.simps) (auto simp: OctalDigit_def)
qed

lemma FetchUnicodePoint_window:
  assumes key: "key = CHR ''u'' \<or> key = CHR ''U''"
    and w: "\<forall>i < UnicodeLength key. c_at rest i \<noteq> NUL"
  shows "ReadHexDigits rest (UnicodeLength key) =
      (True, foldl (\<lambda>r c. push_bit 4 r + word_of_int (DigitValue c)) 0
               (take (UnicodeLength key) rest))"
  using key ReadHexDigits_loop_window [OF w, of 0]
  by (auto simp: ReadHexDigits_def UnicodeLength_def)

lemma FetchUnicodePoint_no_surrogate:
  assumes key: "key = CHR ''u'' \<or> key = CHR ''U''"
    and w: "\<forall>i < UnicodeLength key. c_at rest i \<noteq> NUL"
    and v: "v = foldl (\<lambda>r c. push_bit 4 r + word_of_int (DigitValue c)) 0
               (take (UnicodeLength key) rest)"
    and ns: "\<not> IsHeadSurrogate v"
  shows "FetchUnicodePoint (key # rest) = (drop (UnicodeLength key) rest, v)"
  using FetchUnicodePoint_window [OF key w] ns v
  by (simp add: FetchUnicodePoint_def Let_def)

text \<open>
  Claim C9. For the key \<open>u\<close> or \<open>U\<close>, \<open>FetchUnicodePoint\<close> returns its input
  pointer unchanged exactly when a NUL byte lies within the 4 (for \<open>u\<close>) or 8 (for
  \<open>U\<close>) bytes after the key, and then the loop of \<open>upb_Parse_StringAppend\<close> pushes
  the key byte and goes on after it. Every other window is accepted: \<open>ReadHexDigits\<close>
  succeeds and folds the table value of each byte, valid hex digit or not, into the code
  point by \<open>(result << 4) + DigitValue\<close>, and that value is the code point returned
  unless it is a head surrogate. The table values lie between 0 and 36, and are 36
  exactly on the bytes that are not \<open>0-9\<close>, \<open>A-Z\<close> or \<open>a-z\<close>. For instance
  \<open>\uzzzz\<close> gives the code point \<open>0x25553\<close>.
\<close>

theorem FetchUnicodePoint_fails_only_on_NUL:
  assumes "key = CHR ''u'' \<or> key = CHR ''U''"
  shows "(fst (FetchUnicodePoint (key # rest)) = key # rest \<longleftrightarrow>
            (\<exists>i < UnicodeLength key. c_at rest i = NUL)) \<and>
         UnicodeLength CHR ''u'' = 4 \<and> UnicodeLength CHR ''U'' = 8 \<and>
         ((\<exists>i < UnicodeLength key. c_at rest i = NUL) \<longrightarrow>
            StringAppend_loop quote (CHR 0x5C # key # rest) out =
            StringAppend_loop quote rest (out @ [key])) \<and>
         ((\<forall>i < UnicodeLength key. c_at rest i \<noteq> NUL) \<longrightarrow>
            ReadHexDigits rest (UnicodeLength key) =
              (True, foldl (\<lambda>r c. push_bit 4 r + word_of_int (DigitValue c)) 0
                       (take (UnicodeLength key) rest)) \<and>
            (\<not> IsHeadSurrogate (snd (ReadHexDigits rest (UnicodeLength key))) \<longrightarrow>
               FetchUnicodePoint (key # rest) =
                 (drop (UnicodeLength key) rest, snd (ReadHexDigits rest (UnicodeLength key))))) \<and>
         (\<forall>c. 0 \<le> DigitValue c \<and> DigitValue c \<le> 36 \<and>
              (DigitValue c = 36 \<longleftrightarrow> \<not> base36_digit c)) \<and>
         FetchUnicodePoint ''uzzzz'' = ([], 0x25553) \<and>
         upb_Parse_StringAppend ([CHR 0x22, CHR 0x5C] @ ''uzzzz'' @ [CHR 0x22]) [] =
           Some [CHR 0xF0, CHR 0xA5, CHR 0x95, CHR 0x93]"
  using FetchUnicodePoint_unchanged_iff [OF assms, of rest]
    StringAppend_loop_ufail [OF assms, of rest quote out]
    FetchUnicodePoint_window [OF assms, of rest]
    FetchUnicodePoint_no_surrogate [OF assms, of rest]
    DigitValue_range DigitValue_36_iff garbage_digits_fetch garbage_digits_output
  by (simp add: UnicodeLength_def)

lemma short_window_has_NUL: "\<exists>i < UnicodeLength CHR ''u''. c_at ''12'' i = NUL"
  by (rule exI [of _ 2]) (simp add: UnicodeLength_def c_at_def)

lemma full_window_no_NUL: "\<forall>i < UnicodeLength CHR ''u''. c_at ''zzzz'' i \<noteq> NUL"
  by (simp add: UnicodeLength_def c_at_def nth_Cons' )

theorem FetchUnicodePoint_fails_only_on_NUL_witness:
  "2 < UnicodeLength CHR ''u'' \<and> c_at ''12'' 2 = NUL \<and>
   fst (FetchUnicodePoint ''u12'') = ''u12'' \<and>
   StringAppend_loop (CHR 0x22) (CHR 0x5C # ''u12'') [] = StringAppend_loop (CHR 0x22) ''12'' ''u'' \<and>
   UnicodeLength CHR ''u'' = 4 \<and> list_all (\<lambda>c. c \<noteq> NUL) ''zzzz'' \<and>
   fst (FetchUnicodePoint ''uzzzz'') \<noteq> ''uzzzz'' \<and>
   fst (ReadHexDigits ''zzzz'' (UnicodeLength CHR ''u''))"
proof -
  have k: "CHR ''u'' = CHR ''u'' \<or> CHR ''u'' = CHR ''U''" by simp
  note T1 = FetchUnicodePoint_fails_only_on_NUL [OF k, of "''12''" "CHR 0x22" "[]"]
  note T2 = FetchUnicodePoint_fails_only_on_NUL [OF k, of "''zzzz''" "CHR 0x22" "[]"]
  from T1 short_window_has_NUL have a: "fst (FetchUnicodePoint ''u12'') = ''u12''" by blast
  from T1 short_window_has_NUL have b: "StringAppend_loop (CHR 0x22) (CHR 0x5C # ''u12'') [] =
      StringAppend_loop (CHR 0x22) ''12'' ([] @ ''u'')" by blast
  from T2 full_window_no_NUL have c: "fst (FetchUnicodePoint ''uzzzz'') \<noteq> ''uzzzz''" by blast
  from T2 full_window_no_NUL have "ReadHexDigits ''zzzz'' (UnicodeLength CHR ''u'') =
      (True, foldl (\<lambda>r c. push_bit 4 r + word_of_int (DigitValue c)) 0
               (take (UnicodeLength CHR ''u'') ''zzzz''))" by blast
  then have d: "fst (ReadHexDigits ''zzzz'' (UnicodeLength CHR ''u''))" by simp
  from a b c d show ?thesis by (simp add: UnicodeLength_def c_at_def)
qed

section \<open>Properties of the scanner\<close>

lemma line_Refresh [simp]: "line (Refresh t) = line t"
  by (simp add: Refresh_def upb_String_Append_def Let_def split: prod.splits)

lemma column_Refresh [simp]: "column (Refresh t) = column t"
  by (simp add: Refresh_def upb_String_Append_def Let_def split: prod.splits)

lemma smod_nonneg: "0 \<le> k \<Longrightarrow> k smod 8 = k mod (8::int)"
  by (simp add: signed_modulo_int_def sgn_if)

lemma c_int_id: "- 2147483648 \<le> x \<Longrightarrow> x \<le> INT_MAX \<Longrightarrow> c_int x = x"
  by (simp add: c_int_def INT_MAX_def)

lemma size_t_of_int_id: "0 \<le> x \<Longrightarrow> x \<le> INT_MAX \<Longrightarrow> size_t_of_int x = nat x"
  by (simp add: size_t_of_int_def INT_MAX_def)

lemma NextChar_line:
  "line (NextChar t) = (if current_char t = CHR 0x0A then c_int (line t + 1) else line t)"
  by (simp add: NextChar_def Let_def)

lemma NextChar_column_wrap:
  "0 \<le> column t \<Longrightarrow>
   column (NextChar t) =
     (if current_char t = CHR 0x0A then 0
      else if current_char t = CHR 0x09 then c_int ((column t div 8 + 1) * 8)
      else c_int (column t + 1))"
proof -
  assume c: "0 \<le> column t"
  have e: "column t + (8 - column t mod 8) = (column t div 8 + 1) * 8"
    using div_mult_mod_eq [of "column t" 8] by (simp add: algebra_simps)
  have "column (NextChar t) =
     (if current_char t = CHR 0x0A then 0
      else if current_char t = CHR 0x09 then c_int (column t + (8 - column t mod 8))
      else c_int (column t + 1))"
    using c by (simp add: NextChar_def Let_def kTabWidth_def smod_nonneg)
  then show ?thesis unfolding e .
qed

lemma NextChar_column:
  assumes "0 \<le> column t" "column t \<le> INT_MAX - 8"
  shows "column (NextChar t) =
     (if current_char t = CHR 0x0A then 0
      else if current_char t = CHR 0x09 then (column t div 8 + 1) * 8
      else column t + 1)"
proof -
  have d: "column t div 8 * 8 \<le> column t"
    using div_mult_mod_eq [of "column t" 8] pos_mod_sign [of 8 "column t"] by linarith
  have 1: "c_int ((column t div 8 + 1) * 8) = (column t div 8 + 1) * 8"
    using assms d by (intro c_int_id) (simp_all add: INT_MAX_def)
  have 2: "c_int (column t + 1) = column t + 1"
    using assms by (intro c_int_id) (simp_all add: INT_MAX_def)
  show ?thesis
    using NextChar_column_wrap [OF assms(1)] 1 2 by simp
qed

lemma column_tab_A: "first_token [CHR 0x09, CHR ''A''] =
   \<lparr>tok_type = UPB_TOKENTYPE_IDENTIFIER, tok_line = 0, tok_column = 8, tok_end_column = 9, tok_text = ''A''\<rparr>"
  by code_simp

lemma column_tab_tab_A: "first_token [CHR 0x09, CHR 0x09, CHR ''A''] =
   \<lparr>tok_type = UPB_TOKENTYPE_IDENTIFIER, tok_line = 0, tok_column = 16, tok_end_column = 17, tok_text = ''A''\<rparr>"
  by code_simp

lemma column_AB_tab_C: "second_token [CHR ''A'', CHR ''B'', CHR 0x09, CHR ''C''] =
   \<lparr>tok_type = UPB_TOKENTYPE_IDENTIFIER, tok_line = 0, tok_column = 8, tok_end_column = 9, tok_text = ''C''\<rparr>"
  by code_simp

lemma stable_NextChar: "stable P \<Longrightarrow> P t \<Longrightarrow> P (NextChar t)"
  by (simp add: stable_def steady_def)

lemma stable_error_collector:
  "stable P \<Longrightarrow> P t \<Longrightarrow> P (t\<lparr>error_collector := error_collector t @ [e]\<rparr>)"
  unfolding stable_def steady_def by blast

lemma stable_current: "stable P \<Longrightarrow> P t \<Longrightarrow> P (t\<lparr>current := c\<rparr>)"
  by (simp add: stable_def)

lemma stable_record_target: "stable P \<Longrightarrow> P t \<Longrightarrow> P (t\<lparr>record_target := a\<rparr>)"
  by (simp add: stable_def)

lemma stable_record_start: "stable P \<Longrightarrow> P t \<Longrightarrow> P (t\<lparr>record_start := b\<rparr>)"
  by (simp add: stable_def)

lemmas stable_basic = stable_NextChar stable_error_collector stable_current
  stable_record_target stable_record_start

lemma stable_AddError: "stable P \<Longrightarrow> P t \<Longrightarrow> P (AddError t m)"
  by (simp add: AddError_def stable_basic)

lemma stable_StartToken: "stable P \<Longrightarrow> P t \<Longrightarrow> P (StartToken t)"
  by (simp add: StartToken_def RecordTo_def stable_basic)

lemma stable_EndToken: "stable P \<Longrightarrow> P t \<Longrightarrow> P (EndToken t)"
  by (simp add: EndToken_def StopRecording_def upb_String_Append_def Let_def stable_basic)

lemma stable_TryConsumeOne: "stable P \<Longrightarrow> P t \<Longrightarrow> P (snd (TryConsumeOne t f))"
  by (simp add: TryConsumeOne_def stable_basic)

lemma stable_TryConsume: "stable P \<Longrightarrow> P t \<Longrightarrow> P (snd (TryConsume t c))"
  by (simp add: TryConsume_def stable_basic)

lemma stable_or_else:
  assumes "\<And>s. P s \<Longrightarrow> P (snd (a s))" "\<And>s. P s \<Longrightarrow> P (snd (b s))" "P t"
  shows "P (snd (or_else a b t))"
proof (cases "a t")
  case (Pair r t1)
  have 1: "P t1" using assms(1) [OF assms(3)] Pair by simp
  have 2: "P (snd (b t1))" using assms(2) [OF 1] .
  show ?thesis using 1 2 by (simp add: or_else_def Pair)
qed

lemma stable_and_also:
  assumes "\<And>s. P s \<Longrightarrow> P (snd (a s))" "\<And>s. P s \<Longrightarrow> P (snd (b s))" "P t"
  shows "P (snd (and_also a b t))"
proof (cases "a t")
  case (Pair r t1)
  have 1: "P t1" using assms(1) [OF assms(3)] Pair by simp
  have 2: "P (snd (b t1))" using assms(2) [OF 1] .
  show ?thesis using 1 2 by (simp add: and_also_def Pair)
qed

lemma stable_if: "(c \<Longrightarrow> P x) \<Longrightarrow> (\<not> c \<Longrightarrow> P y) \<Longrightarrow> P (if c then x else y)"
  by simp

lemma stable_ConsumeZeroOrMore: "stable P \<Longrightarrow> P t \<Longrightarrow> P (ConsumeZeroOrMore t f)"
proof (induction t f rule: ConsumeZeroOrMore.induct)
  case (1 t f)
  then show ?case
    by (subst ConsumeZeroOrMore.simps) (auto simp: stable_basic)
qed

lemma stable_ConsumeOneOrMore: "stable P \<Longrightarrow> P t \<Longrightarrow> P (ConsumeOneOrMore t f m)"
  by (simp add: ConsumeOneOrMore_def stable_AddError stable_ConsumeZeroOrMore stable_NextChar)

lemmas stable_rules_1 = stable_basic stable_AddError stable_StartToken stable_EndToken
  stable_TryConsumeOne stable_TryConsume stable_ConsumeZeroOrMore stable_ConsumeOneOrMore

lemma stable_ConsumeString_u4:
  assumes s: "stable P"
  shows "P t \<Longrightarrow> P (snd (ConsumeString_u4 t))"
  unfolding ConsumeString_u4_def
  by (rule stable_and_also [where P = P] | rule stable_TryConsumeOne [OF s] | assumption)+

lemma stable_ConsumeString_U8:
  assumes s: "stable P"
  shows "P t \<Longrightarrow> P (snd (ConsumeString_U8 t))"
  unfolding ConsumeString_U8_def
  by (rule stable_and_also [where P = P] | rule stable_or_else [where P = P]
      | rule stable_TryConsumeOne [OF s] | rule stable_TryConsume [OF s] | assumption)+

lemma stable_ConsumeString_escape:
  assumes s: "stable P"
  shows "P t \<Longrightarrow> P (ConsumeString_escape t)"
  unfolding ConsumeString_escape_def Let_def case_prod_beta
  by (intro stable_if [where P = P] stable_rules_1 [OF s] stable_ConsumeString_u4 [OF s]
      stable_ConsumeString_U8 [OF s])


lemma stable_snd_if:
  "(c \<Longrightarrow> P (snd x)) \<Longrightarrow> (\<not> c \<Longrightarrow> P (snd y)) \<Longrightarrow> P (snd (if c then x else y))"
  by simp

lemma stable_snd_Pair: "P y \<Longrightarrow> P (snd (x, y))"
  by simp

lemmas stable_struct = stable_if stable_snd_if stable_snd_Pair stable_or_else stable_and_also

lemma stable_ConsumeString:
  assumes s: "stable P"
  shows "P t \<Longrightarrow> P (ConsumeString t d)"
proof (induction t d rule: ConsumeString.induct)
  case (1 t d)
  have n: "P (NextChar t)" using "1.prems" by (rule stable_NextChar [OF s])
  then have e: "P (ConsumeString_escape (NextChar t))"
    by (rule stable_ConsumeString_escape [OF s])
  show ?case
    using "1.IH" "1.prems" n e
    by (subst ConsumeString.simps) (auto intro: stable_AddError [OF s])
qed

lemma stable_ConsumeNumber_decimal:
  assumes s: "stable P"
  shows "P t \<Longrightarrow> P (snd (ConsumeNumber_decimal t d))"
  unfolding ConsumeNumber_decimal_def Let_def case_prod_beta
  by (intro stable_struct [where P = P] stable_rules_1 [OF s])

lemma stable_ConsumeNumber:
  assumes s: "stable P"
  shows "P t \<Longrightarrow> P (snd (ConsumeNumber t z d))"
  unfolding ConsumeNumber_def Let_def case_prod_beta
  by (intro stable_struct [where P = P] stable_rules_1 [OF s] stable_ConsumeNumber_decimal [OF s])

lemma stable_ConsumeLineComment_loop:
  assumes s: "stable P"
  shows "P t \<Longrightarrow> P (ConsumeLineComment_loop t)"
proof (induction t rule: ConsumeLineComment_loop.induct)
  case (1 t)
  have n: "P (NextChar t)" using "1.prems" by (rule stable_NextChar [OF s])
  show ?case
    using "1.IH" "1.prems" n by (subst ConsumeLineComment_loop.simps) auto
qed

lemma stable_ConsumeLineComment:
  assumes s: "stable P"
  shows "P t \<Longrightarrow> P (ConsumeLineComment t)"
  unfolding ConsumeLineComment_def
  by (intro stable_rules_1 [OF s] stable_ConsumeLineComment_loop [OF s])

lemma stable_ConsumeBlockComment_skip:
  assumes s: "stable P"
  shows "P t \<Longrightarrow> P (ConsumeBlockComment_skip t)"
proof (induction t rule: ConsumeBlockComment_skip.induct)
  case (1 t)
  have n: "P (NextChar t)" using "1.prems" by (rule stable_NextChar [OF s])
  show ?case
    using "1.IH" "1.prems" n by (subst ConsumeBlockComment_skip.simps) auto
qed

lemma stable_ConsumeBlockComment_body:
  assumes s: "stable P"
  shows "P t \<Longrightarrow> P (snd (ConsumeBlockComment_body t l c))"
  unfolding ConsumeBlockComment_body_def Let_def case_prod_beta
  by (intro stable_struct [where P = P] stable_rules_1 [OF s]
      stable_ConsumeBlockComment_skip [OF s])

lemma stable_ConsumeBlockComment_loop:
  assumes s: "stable P"
  shows "P t \<Longrightarrow> P (ConsumeBlockComment_loop t l c)"
proof (induction t l c rule: ConsumeBlockComment_loop.induct)
  case (1 t l c)
  obtain fl t' where b: "ConsumeBlockComment_body t l c = (fl, t')"
    by (cases "ConsumeBlockComment_body t l c") auto
  have p: "P t'"
    using stable_ConsumeBlockComment_body [OF s "1.prems", of l c] b by simp
  show ?case
  proof (cases fl)
    case Continue
    then have "P (ConsumeBlockComment_loop t' l c)" using "1.IH" b p by auto
    then show ?thesis using b Continue by (subst ConsumeBlockComment_loop.simps) simp
  next
    case Break
    then show ?thesis using b p by (subst ConsumeBlockComment_loop.simps) simp
  next
    case (Return r)
    then show ?thesis using b p by (subst ConsumeBlockComment_loop.simps) simp
  qed
qed

lemma stable_ConsumeBlockComment:
  assumes s: "stable P"
  shows "P t \<Longrightarrow> P (ConsumeBlockComment t)"
  unfolding ConsumeBlockComment_def by (rule stable_ConsumeBlockComment_loop [OF s])

lemma stable_TryConsumeCommentStart:
  assumes s: "stable P"
  shows "P t \<Longrightarrow> P (snd (TryConsumeCommentStart t))"
  unfolding TryConsumeCommentStart_def Let_def case_prod_beta
  by (intro stable_struct [where P = P] stable_rules_1 [OF s])

lemma stable_TryConsumeWhitespace:
  assumes s: "stable P"
  shows "P t \<Longrightarrow> P (snd (TryConsumeWhitespace t))"
  unfolding TryConsumeWhitespace_def Let_def case_prod_beta
  by (intro stable_struct [where P = P] stable_rules_1 [OF s])

lemma stable_TryConsumeNewline:
  assumes s: "stable P"
  shows "P t \<Longrightarrow> P (snd (TryConsumeNewline t))"
  unfolding TryConsumeNewline_def Let_def case_prod_beta
  by (intro stable_struct [where P = P] stable_rules_1 [OF s])

lemma stable_Next_skip_cond:
  assumes s: "stable P"
  shows "P t \<Longrightarrow> P (snd (Next_skip_cond t))"
  unfolding Next_skip_cond_def
  by (intro stable_struct [where P = P] stable_rules_1 [OF s])

lemma stable_Next_skip:
  assumes s: "stable P"
  shows "P t \<Longrightarrow> P (Next_skip t)"
proof (induction t rule: Next_skip.induct)
  case (1 t)
  have n: "P (snd (Next_skip_cond t))" using "1.prems" by (rule stable_Next_skip_cond [OF s])
  show ?case
    using "1.IH" n by (subst Next_skip.simps) auto
qed

lemma stable_Next_token:
  assumes s: "stable P"
  shows "P t \<Longrightarrow> P (Next_token t)"
  unfolding Next_token_def Let_def case_prod_beta
  by (intro stable_struct [where P = P] stable_rules_1 [OF s] stable_ConsumeNumber [OF s]
      stable_ConsumeString [OF s])

lemma stable_Next_EOF:
  assumes s: "stable P"
  shows "P t \<Longrightarrow> P (snd (Next_EOF t))"
  unfolding Next_EOF_def by (simp add: stable_current [OF s])

lemma stable_Next_body:
  assumes s: "stable P"
  shows "P t \<Longrightarrow> P (snd (Next_body t))"
proof -
  assume p: "P t"
  define t1 where "t1 = snd (or_else TryConsumeWhitespace TryConsumeNewline (StartToken t))"
  have 1: "P t1"
    unfolding t1_def
    by (intro stable_or_else [where P = P] stable_TryConsumeWhitespace [OF s]
        stable_TryConsumeNewline [OF s] stable_StartToken [OF s] p)
  define t2 where "t2 = EndToken t1"
  have 2: "P t2" unfolding t2_def using 1 by (rule stable_EndToken [OF s])
  define t3 where "t3 = snd (TryConsumeCommentStart t2)"
  have 3: "P t3" unfolding t3_def using 2 by (rule stable_TryConsumeCommentStart [OF s])
  have 4: "P (ConsumeLineComment t3)" using 3 by (rule stable_ConsumeLineComment [OF s])
  have 5: "P (ConsumeBlockComment t3)" using 3 by (rule stable_ConsumeBlockComment [OF s])
  have 6: "P (Next_skip (NextChar (AddError t3 ''Invalid control characters encountered in text.'')))"
    using 3 by (intro stable_Next_skip [OF s] stable_NextChar [OF s] stable_AddError [OF s])
  have 7: "P (Next_token t3)" using 3 by (rule stable_Next_token [OF s])
  show ?thesis
    using 2 3 4 5 6 7
    by (cases "fst (TryConsumeCommentStart t2)")
      (simp_all add: Next_body_def Let_def case_prod_beta t1_def [symmetric] t2_def [symmetric]
        t3_def [symmetric])
qed

lemma stable_Next_loop:
  assumes s: "stable P"
  shows "P t \<Longrightarrow> P (snd (Next_loop t))"
proof (induction t rule: Next_loop.induct)
  case (1 t)
  show ?case
  proof (cases "read_error t")
    case True
    then show ?thesis
      using stable_Next_EOF [OF s "1.prems"] by (subst Next_loop.simps) simp
  next
    case False
    obtain fl t' where b: "Next_body t = (fl, t')" by (cases "Next_body t") auto
    have p: "P t'" using stable_Next_body [OF s "1.prems"] b by simp
    show ?thesis
    proof (cases fl)
      case Continue
      then have "P (snd (Next_loop t'))" using "1.IH" False b p by auto
      then show ?thesis using False b Continue by (subst Next_loop.simps) simp
    next
      case Break
      then show ?thesis
        using False b stable_Next_EOF [OF s p] by (subst Next_loop.simps) simp
    next
      case (Return r)
      then show ?thesis using False b p by (subst Next_loop.simps) simp
    qed
  qed
qed

lemma previous_Refresh [simp]: "previous (Refresh t) = previous t"
  by (simp add: Refresh_def upb_String_Append_def Let_def split: prod.splits)

lemma previous_NextChar [simp]: "previous (NextChar t) = previous t"
  by (simp add: NextChar_def Let_def)

lemma stable_previous: "stable (\<lambda>t. previous t = p)"
  by (simp add: stable_def steady_def)

lemma upb_Token_Copy_eq [simp]: "upb_Token_Copy des src = src"
  by (simp add: upb_Token_Copy_def)

lemma previous_Next: "previous (snd (upb_Tokenizer_Next t)) = current t"
  unfolding upb_Tokenizer_Next_def
  by (rule stable_Next_loop [OF stable_previous]) simp

lemma Next_EOF_eq: "Next_EOF t = (False, t\<lparr>current := END_token t\<rparr>)"
  by (simp add: Next_EOF_def END_token_def)

lemma Next_latched:
  "read_error t \<Longrightarrow>
   upb_Tokenizer_Next t = (False, t\<lparr>previous := current t, current := END_token t\<rparr>)"
  by (simp add: upb_Tokenizer_Next_def Next_loop.simps Next_EOF_eq END_token_def)





lemma Next_latched_again:
  "read_error t \<Longrightarrow>
   read_error (((\<lambda>s. snd (upb_Tokenizer_Next s)) ^^ n) t) \<and>
   line (((\<lambda>s. snd (upb_Tokenizer_Next s)) ^^ n) t) = line t \<and>
   column (((\<lambda>s. snd (upb_Tokenizer_Next s)) ^^ n) t) = column t"
  by (induction n) (simp_all add: Next_latched)

lemma Next_latched_forever:
  assumes "read_error t"
  shows "upb_Tokenizer_Next (((\<lambda>s. snd (upb_Tokenizer_Next s)) ^^ n) t) =
     (False, (((\<lambda>s. snd (upb_Tokenizer_Next s)) ^^ n) t)
        \<lparr>previous := current (((\<lambda>s. snd (upb_Tokenizer_Next s)) ^^ n) t),
         current := END_token t\<rparr>)"
  using Next_latched_again [OF assms, of n]
  by (simp add: Next_latched END_token_def)


lemma NextChar_eq:
  "NextChar t =
     (if buffer_pos (NextChar_counted t) < buffer_size (NextChar_counted t)
      then (NextChar_counted t)\<lparr>current_char :=
              buffer (NextChar_counted t) ! buffer_pos (NextChar_counted t)\<rparr>
      else Refresh (NextChar_counted t))"
  by (simp add: NextChar_def NextChar_counted_def Let_def)

lemma NextChar_counted_fields [simp]:
  "buffer (NextChar_counted t) = buffer t"
  "buffer_pos (NextChar_counted t) = Suc (buffer_pos t)"
  "read_error (NextChar_counted t) = read_error t"
  "input (NextChar_counted t) = input t"
  "current_char (NextChar_counted t) = current_char t"
  "record_target (NextChar_counted t) = record_target t"
  "record_start (NextChar_counted t) = record_start t"
  "current (NextChar_counted t) = current t"
  by (simp_all add: NextChar_counted_def Let_def)




lemma buffer_bytes_in:
  "0 \<le> start \<Longrightarrow> nat start + count \<le> length buf \<Longrightarrow>
   buffer_bytes buf start count = take count (drop (nat start) buf)"
  by (simp add: buffer_bytes_def)

lemma buffer_bytes_Nil [simp]: "buffer_bytes [] start count = []"
  by (simp add: buffer_bytes_def)

lemma chunks_fit_Refresh: "chunks_fit t \<Longrightarrow> chunks_fit (Refresh t)"
  by (cases "input t")
    (auto simp: chunks_fit_def Refresh_def upb_ZeroCopyInputStream_Next_def upb_String_Append_def
      Let_def INT_MAX_def)

lemma chunks_fit_NextChar_counted [simp]: "chunks_fit (NextChar_counted t) = chunks_fit t"
  by (simp add: chunks_fit_def)

lemma chunks_fit_NextChar: "chunks_fit t \<Longrightarrow> chunks_fit (NextChar t)"
  using chunks_fit_Refresh [of "NextChar_counted t"]
  by (simp add: NextChar_eq) (simp add: chunks_fit_def)

lemma stable_chunks_fit: "stable chunks_fit"
  unfolding stable_def steady_def using chunks_fit_NextChar by (simp add: chunks_fit_def)

lemma chunks_fit_previous [simp]: "chunks_fit (t\<lparr>previous := p\<rparr>) = chunks_fit t"
  by (simp add: chunks_fit_def)







lemma tok_type_EndToken [simp]: "tok_type (current (EndToken t)) = tok_type (current t)"
  by (simp add: EndToken_def StopRecording_def upb_String_Append_def Let_def)






lemma pending_updates [simp]:
  "pending (t\<lparr>current := c\<rparr>) = pending t"
  "pending (t\<lparr>previous := p\<rparr>) = pending t"
  "pending (t\<lparr>error_collector := e\<rparr>) = pending t"
  "pending (t\<lparr>record_target := a\<rparr>) = pending t"
  "pending (t\<lparr>record_start := b\<rparr>) = pending t"
  by (simp_all add: pending_def)

lemma pending_StartToken [simp]: "pending (StartToken t) = pending t"
  by (simp add: StartToken_def RecordTo_def)

lemma pending_EndToken [simp]: "pending (EndToken t) = pending t"
  by (simp add: EndToken_def StopRecording_def upb_String_Append_def Let_def)

lemma pending_AddError [simp]: "pending (AddError t m) = pending t"
  by (simp add: AddError_def)










lemma buffer_ok_previous [simp]: "buffer_ok (t\<lparr>previous := p\<rparr>) = buffer_ok t"
  by (simp add: buffer_ok_def)






lemma StartToken_fields [simp]:
  "current_char (StartToken t) = current_char t"
  "read_error (StartToken t) = read_error t"
  "line (StartToken t) = line t"
  "column (StartToken t) = column t"
  "error_collector (StartToken t) = error_collector t"
  "previous (StartToken t) = previous t"
  "report_whitespace (StartToken t) = report_whitespace t"
  "report_newlines (StartToken t) = report_newlines t"
  "comment_style (StartToken t) = comment_style t"
  "require_space_after_number (StartToken t) = require_space_after_number t"
  "tok_line (current (StartToken t)) = line t"
  "tok_column (current (StartToken t)) = column t"
  by (simp_all add: StartToken_def RecordTo_def)

lemma EndToken_fields [simp]:
  "current_char (EndToken t) = current_char t"
  "read_error (EndToken t) = read_error t"
  "line (EndToken t) = line t"
  "column (EndToken t) = column t"
  "error_collector (EndToken t) = error_collector t"
  "previous (EndToken t) = previous t"
  "report_whitespace (EndToken t) = report_whitespace t"
  "report_newlines (EndToken t) = report_newlines t"
  "comment_style (EndToken t) = comment_style t"
  "require_space_after_number (EndToken t) = require_space_after_number t"
  "tok_line (current (EndToken t)) = tok_line (current t)"
  "tok_column (current (EndToken t)) = tok_column (current t)"
  "tok_end_column (current (EndToken t)) = column t"
  by (simp_all add: EndToken_def StopRecording_def upb_String_Append_def Let_def)

lemma AddError_fields [simp]:
  "current_char (AddError t m) = current_char t"
  "read_error (AddError t m) = read_error t"
  "line (AddError t m) = line t"
  "column (AddError t m) = column t"
  "current (AddError t m) = current t"
  "require_space_after_number (AddError t m) = require_space_after_number t"
  "error_collector (AddError t m) = error_collector t @ [(line t, column t, m)]"
  by (simp_all add: AddError_def)

text \<open>What \<open>Refresh\<close> and \<open>NextChar\<close> leave alone.\<close>

lemma Refresh_keeps [simp]:
  "error_collector (Refresh t) = error_collector t"
  "report_whitespace (Refresh t) = report_whitespace t"
  "report_newlines (Refresh t) = report_newlines t"
  "comment_style (Refresh t) = comment_style t"
  "require_space_after_number (Refresh t) = require_space_after_number t"
  "tok_type (current (Refresh t)) = tok_type (current t)"
  "tok_line (current (Refresh t)) = tok_line (current t)"
  "tok_column (current (Refresh t)) = tok_column (current t)"
  "tok_end_column (current (Refresh t)) = tok_end_column (current t)"
  by (simp_all add: Refresh_def upb_String_Append_def Let_def split: prod.splits)

lemma NextChar_keeps [simp]:
  "error_collector (NextChar t) = error_collector t"
  "report_whitespace (NextChar t) = report_whitespace t"
  "report_newlines (NextChar t) = report_newlines t"
  "comment_style (NextChar t) = comment_style t"
  "require_space_after_number (NextChar t) = require_space_after_number t"
  "tok_type (current (NextChar t)) = tok_type (current t)"
  "tok_line (current (NextChar t)) = tok_line (current t)"
  "tok_column (current (NextChar t)) = tok_column (current t)"
  "tok_end_column (current (NextChar t)) = tok_end_column (current t)"
  by (simp_all add: NextChar_def Let_def)






























section \<open>The scanner as its clients see it\<close>

text \<open>
  Claim C4, as the source has it. \<open>NextChar\<close> consumes every byte, and the counters
  are C \<open>int\<close>s. While they are below the top of the range, a newline sets the column
  to 0 and adds one to the line, a tab moves the column to the next multiple of 8, and
  any other byte adds one to the column and leaves the line: for a line from 0 and below
  \<open>INT_MAX\<close>, for a column from 0 up to \<open>INT_MAX - 8\<close>, and up to \<open>INT_MAX - 1\<close> when
  the byte is not a tab. So for the input \<open>\tA\<close> the token \<open>A\<close> has column 8, for
  \<open>\t\tA\<close> it has column 16, and for \<open>AB\tC\<close> the token \<open>C\<close> has column 8.
\<close>

theorem NextChar_counts_lines_and_columns:
  "(current_char t \<noteq> CHR 0x0A \<longrightarrow> line (NextChar t) = line t) \<and>
   (current_char t = CHR 0x0A \<and> 0 \<le> line t \<and> line t < INT_MAX \<longrightarrow>
      line (NextChar t) = line t + 1) \<and>
   (current_char t = CHR 0x0A \<longrightarrow> column (NextChar t) = 0) \<and>
   (0 \<le> column t \<and> column t \<le> INT_MAX - 8 \<longrightarrow>
      column (NextChar t) =
        (if current_char t = CHR 0x0A then 0
         else if current_char t = CHR 0x09 then (column t div 8 + 1) * 8
         else column t + 1) \<and>
      (current_char t = CHR 0x09 \<longrightarrow>
         column (NextChar t) mod 8 = 0 \<and> column t < column (NextChar t) \<and>
         column (NextChar t) \<le> column t + 8)) \<and>
   (0 \<le> column t \<and> column t < INT_MAX \<and> current_char t \<noteq> CHR 0x0A \<and>
    current_char t \<noteq> CHR 0x09 \<longrightarrow>
      column (NextChar t) = column t + 1) \<and>
   first_token [CHR 0x09, CHR ''A''] =
     \<lparr>tok_type = UPB_TOKENTYPE_IDENTIFIER, tok_line = 0, tok_column = 8,
      tok_end_column = 9, tok_text = ''A''\<rparr> \<and>
   first_token [CHR 0x09, CHR 0x09, CHR ''A''] =
     \<lparr>tok_type = UPB_TOKENTYPE_IDENTIFIER, tok_line = 0, tok_column = 16,
      tok_end_column = 17, tok_text = ''A''\<rparr> \<and>
   second_token [CHR ''A'', CHR ''B'', CHR 0x09, CHR ''C''] =
     \<lparr>tok_type = UPB_TOKENTYPE_IDENTIFIER, tok_line = 0, tok_column = 8,
      tok_end_column = 9, tok_text = ''C''\<rparr>"
proof -
  have d: "column t div 8 * 8 \<le> column t" "column t < column t div 8 * 8 + 8"
    using div_mult_mod_eq [of "column t" 8] pos_mod_bound [of 8 "column t"]
      pos_mod_sign [of 8 "column t"] by linarith+
  have l: "line (NextChar t) = line t + 1"
    if "current_char t = CHR 0x0A" "0 \<le> line t" "line t < INT_MAX"
  proof -
    have "c_int (line t + 1) = line t + 1"
      using that by (intro c_int_id) (simp_all add: INT_MAX_def)
    then show ?thesis using that NextChar_line [of t] by simp
  qed
  have c: "column (NextChar t) =
        (if current_char t = CHR 0x0A then 0
         else if current_char t = CHR 0x09 then (column t div 8 + 1) * 8
         else column t + 1)" if "0 \<le> column t" "column t \<le> INT_MAX - 8"
    using that by (rule NextChar_column)
  have o: "column (NextChar t) = column t + 1"
    if "0 \<le> column t" "column t < INT_MAX" "current_char t \<noteq> CHR 0x0A"
      "current_char t \<noteq> CHR 0x09"
  proof -
    have "c_int (column t + 1) = column t + 1"
      using that by (intro c_int_id) (simp_all add: INT_MAX_def)
    then show ?thesis using that NextChar_column_wrap [of t] by simp
  qed
  have z: "column (NextChar t) = 0" if "current_char t = CHR 0x0A"
    using that by (simp add: NextChar_def Let_def)
  show ?thesis
    using NextChar_line [of t] l c o z d
      column_tab_A column_tab_tab_A column_AB_tab_C
    by (simp add: algebra_simps)
qed

theorem NextChar_counts_lines_and_columns_witness:
  "column (upb_Tokenizer_New [CHR 0x09, CHR ''A''] []) = 0 \<and>
   line (upb_Tokenizer_New [CHR 0x09, CHR ''A''] []) = 0 \<and>
   current_char (upb_Tokenizer_New [CHR 0x09, CHR ''A''] []) = CHR 0x09 \<and>
   column (NextChar (upb_Tokenizer_New [CHR 0x09, CHR ''A''] [])) = 8 \<and>
   line (NextChar (upb_Tokenizer_New [CHR 0x09, CHR ''A''] [])) = 0"
proof -
  have c: "column (upb_Tokenizer_New [CHR 0x09, CHR ''A''] []) = 0"
    "current_char (upb_Tokenizer_New [CHR 0x09, CHR ''A''] []) = CHR 0x09"
    "line (upb_Tokenizer_New [CHR 0x09, CHR ''A''] []) = 0"
    by (simp_all add: upb_Tokenizer_New_def Let_def)
  show ?thesis
    using NextChar_counts_lines_and_columns [of "upb_Tokenizer_New [CHR 0x09, CHR ''A''] []"] c
    by (simp add: INT_MAX_def)
qed

text \<open>
  At the top of the range the claim as the specification states it fails: with the
  column at \<open>INT_MAX\<close>, consuming the byte \<open>A\<close> does not add one to the column.
\<close>

theorem NextChar_counts_lines_and_columns_counterexample:
  "current_char ((upb_Tokenizer_New ''AB'' [])\<lparr>column := 2147483647\<rparr>) = CHR ''A'' \<and>
   column (NextChar ((upb_Tokenizer_New ''AB'' [])\<lparr>column := 2147483647\<rparr>)) = - 2147483648 \<and>
   column (NextChar ((upb_Tokenizer_New ''AB'' [])\<lparr>column := 2147483647\<rparr>)) \<noteq>
     column ((upb_Tokenizer_New ''AB'' [])\<lparr>column := 2147483647\<rparr>) + 1"
  by (simp add: upb_Tokenizer_New_def NextChar_def Let_def c_int_def)

text \<open>
  Claim C5. After a call of \<open>upb_Tokenizer_Next\<close>, whatever it returns, the previous
  token is the current token of before the call, field by field and with the same text:
  the accessors for the previous type, line, column, end column and text give what the
  accessors for the current token gave before.
\<close>

theorem Next_previous_is_old_current:
  "previous (snd (upb_Tokenizer_Next t)) = current t \<and>
   upb_Tokenizer_PreviousType (snd (upb_Tokenizer_Next t)) = upb_Tokenizer_CurrentType t \<and>
   upb_Tokenizer_PreviousLine (snd (upb_Tokenizer_Next t)) = upb_Tokenizer_CurrentLine t \<and>
   upb_Tokenizer_PreviousColumn (snd (upb_Tokenizer_Next t)) = upb_Tokenizer_CurrentColumn t \<and>
   upb_Tokenizer_PreviousEndColumn (snd (upb_Tokenizer_Next t)) = upb_Tokenizer_CurrentEndColumn t \<and>
   upb_Tokenizer_PreviousTextData (snd (upb_Tokenizer_Next t)) = upb_Tokenizer_CurrentTextData t \<and>
   upb_Tokenizer_PreviousTextSize (snd (upb_Tokenizer_Next t)) = upb_Tokenizer_CurrentTextSize t"
  by (simp add: previous_Next upb_Tokenizer_PreviousType_def upb_Tokenizer_CurrentType_def
      upb_Tokenizer_PreviousLine_def upb_Tokenizer_CurrentLine_def
      upb_Tokenizer_PreviousColumn_def upb_Tokenizer_CurrentColumn_def
      upb_Tokenizer_PreviousEndColumn_def upb_Tokenizer_CurrentEndColumn_def
      upb_Tokenizer_PreviousTextData_def upb_Tokenizer_CurrentTextData_def
      upb_Tokenizer_PreviousTextSize_def upb_Tokenizer_CurrentTextSize_def)

lemma foo_bar_tokens:
  "current (snd (upb_Tokenizer_Next (upb_Tokenizer_New ''foo bar'' []))) =
     \<lparr>tok_type = UPB_TOKENTYPE_IDENTIFIER, tok_line = 0, tok_column = 0, tok_end_column = 3,
      tok_text = ''foo''\<rparr> \<and>
   current (snd (upb_Tokenizer_Next (snd (upb_Tokenizer_Next (upb_Tokenizer_New ''foo bar'' []))))) =
     \<lparr>tok_type = UPB_TOKENTYPE_IDENTIFIER, tok_line = 0, tok_column = 4, tok_end_column = 7,
      tok_text = ''bar''\<rparr>"
  by code_simp

theorem Next_previous_is_old_current_witness:
  "upb_Tokenizer_PreviousTextData
     (snd (upb_Tokenizer_Next (snd (upb_Tokenizer_Next (upb_Tokenizer_New ''foo bar'' []))))) =
     ''foo'' \<and>
   upb_Tokenizer_PreviousEndColumn
     (snd (upb_Tokenizer_Next (snd (upb_Tokenizer_Next (upb_Tokenizer_New ''foo bar'' []))))) = 3 \<and>
   upb_Tokenizer_CurrentTextData
     (snd (upb_Tokenizer_Next (snd (upb_Tokenizer_Next (upb_Tokenizer_New ''foo bar'' []))))) =
     ''bar''"
  using Next_previous_is_old_current
    [of "snd (upb_Tokenizer_Next (upb_Tokenizer_New ''foo bar'' []))"] foo_bar_tokens
  by (simp add: upb_Tokenizer_CurrentTextData_def upb_Tokenizer_CurrentEndColumn_def)

lemma stable_report: "stable (\<lambda>t. report_newlines t \<longrightarrow> report_whitespace t)"
  by (simp add: stable_def steady_def)

lemma reachable_report: "reachable t \<Longrightarrow> report_newlines t \<longrightarrow> report_whitespace t"
proof (induction rule: reachable.induct)
  case (New d i)
  show ?case
    by (simp add: upb_Tokenizer_New_def Let_def)
next
  case (Next t)
  then show ?case
    unfolding upb_Tokenizer_Next_def
    by (intro stable_Next_loop [OF stable_report]) simp
qed (simp_all add: upb_Tokenizer_SetAllowFAfterFloat_def
    upb_Tokenizer_SetCommentStyle_def upb_Tokenizer_SetRequireSpaceAfterNumber_def
    upb_Tokenizer_SetAllowMultilineStrings_def upb_Tokenizer_SetReportWhitespace_def
    upb_Tokenizer_SetReportNewlines_def Let_def)

text \<open>
  Claim C7. \<open>upb_Tokenizer_SetReportNewlines(t, true)\<close> leaves both \<open>report_newlines\<close>
  and \<open>report_whitespace\<close> true, and \<open>upb_Tokenizer_SetReportWhitespace(t, false)\<close>
  leaves both false. After either setter, with either argument and from any state,
  \<open>report_newlines\<close> implies \<open>report_whitespace\<close>.
\<close>

theorem report_setters_keep_invariant:
  "report_newlines (upb_Tokenizer_SetReportNewlines t True) \<and>
   report_whitespace (upb_Tokenizer_SetReportNewlines t True) \<and>
   \<not> report_whitespace (upb_Tokenizer_SetReportWhitespace t False) \<and>
   \<not> report_newlines (upb_Tokenizer_SetReportWhitespace t False) \<and>
   (report_newlines (upb_Tokenizer_SetReportNewlines t report) \<longrightarrow>
      report_whitespace (upb_Tokenizer_SetReportNewlines t report)) \<and>
   (report_newlines (upb_Tokenizer_SetReportWhitespace t report) \<longrightarrow>
      report_whitespace (upb_Tokenizer_SetReportWhitespace t report)) \<and>
   (reachable t \<longrightarrow> report_newlines t \<longrightarrow> report_whitespace t)"
  using reachable_report [of t]
  by (simp add: upb_Tokenizer_SetReportNewlines_def upb_Tokenizer_SetReportWhitespace_def Let_def)

theorem report_setters_keep_invariant_witness:
  "report_newlines (upb_Tokenizer_SetReportNewlines (upb_Tokenizer_New [] []) True) \<and>
   report_whitespace (upb_Tokenizer_SetReportNewlines (upb_Tokenizer_New [] []) True) \<and>
   report_newlines (upb_Tokenizer_SetReportWhitespace
     (upb_Tokenizer_SetReportNewlines (upb_Tokenizer_New [] []) True) True) \<and>
   report_whitespace (upb_Tokenizer_SetReportWhitespace
     (upb_Tokenizer_SetReportNewlines (upb_Tokenizer_New [] []) True) True)"
proof -
  have a: "report_newlines (upb_Tokenizer_SetReportWhitespace
     (upb_Tokenizer_SetReportNewlines (upb_Tokenizer_New [] []) True) True)"
    by (simp add: upb_Tokenizer_SetReportNewlines_def upb_Tokenizer_SetReportWhitespace_def Let_def)
  show ?thesis
    using report_setters_keep_invariant [of "upb_Tokenizer_New [] []" True]
      report_setters_keep_invariant
        [of "upb_Tokenizer_SetReportNewlines (upb_Tokenizer_New [] []) True" True] a
    by blast
qed








lemma chunks_fit_Next: "chunks_fit t \<Longrightarrow> chunks_fit (snd (upb_Tokenizer_Next t))"
  unfolding upb_Tokenizer_Next_def
  by (rule stable_Next_loop [OF stable_chunks_fit]) simp

lemma foo_token:
  "current (snd (upb_Tokenizer_Next (upb_Tokenizer_New ''foo'' []))) =
     \<lparr>tok_type = UPB_TOKENTYPE_IDENTIFIER, tok_line = 0, tok_column = 0, tok_end_column = 3,
      tok_text = ''foo''\<rparr>"
  by code_simp


































end
